theory Spec2Isabelle
  imports Complex_Main "HOL-Library.List_Lexorder" "HOL-Library.Log_Nat"
    "HOL-Library.Code_Target_Numeral"
begin

section \<open>Text\<close>

text \<open>
  A Python \<open>str\<close> is a sequence of Unicode code points, so it is modelled as a list of
  natural numbers; \<open>ustr\<close> turns an ASCII literal into such a list. Comparison of two
  strings is lexicographic by code point, which is the order of \<open>List_Lexorder\<close>.
\<close>

type_synonym ustring = "nat list"

definition ustr :: "string \<Rightarrow> ustring" where
  "ustr s = map of_char s"

text \<open>
  The character classes of the interpreter for code points below 128 are fixed and written
  out here. For the other code points the decimal-digit value, the full upper-case mapping and
  the alphabetic property come from the Unicode database the interpreter was built with;
  that table is a parameter of every function that reads it.
\<close>

record ucd =
  nd_value :: "nat \<Rightarrow> nat option"
  up_full :: "nat \<Rightarrow> nat list"
  alpha :: "nat \<Rightarrow> bool"

text \<open>\<open>str.isspace\<close> on one code point; also the class \<open>\s\<close> and what \<open>str.strip()\<close> removes.\<close>

definition py_isspace :: "nat \<Rightarrow> bool" where
  "py_isspace c =
     ((9 \<le> c \<and> c \<le> 13) \<or> (28 \<le> c \<and> c \<le> 32) \<or> c = 133 \<or> c = 160 \<or> c = 5760 \<or>
      (8192 \<le> c \<and> c \<le> 8202) \<or> c = 8232 \<or> c = 8233 \<or> c = 8239 \<or> c = 8287 \<or>
      c = 12288)"

text \<open>The decimal value of a code point, \<open>None\<close> when it is not a decimal digit.\<close>

definition py_decimal :: "ucd \<Rightarrow> nat \<Rightarrow> nat option" where
  "py_decimal U c =
     (if c < 128 then (if 48 \<le> c \<and> c \<le> 57 then Some (c - 48) else None)
      else nd_value U c)"

text \<open>The class \<open>\d\<close>.\<close>

definition py_isdigit :: "ucd \<Rightarrow> nat \<Rightarrow> bool" where
  "py_isdigit U c = (py_decimal U c \<noteq> None)"

definition py_upper_char :: "ucd \<Rightarrow> nat \<Rightarrow> nat list" where
  "py_upper_char U c =
     (if c < 128 then (if 97 \<le> c \<and> c \<le> 122 then [c - 32] else [c])
      else up_full U c)"

text \<open>\<open>str.upper()\<close>: every code point is replaced by its upper-case mapping.\<close>

definition py_upper :: "ucd \<Rightarrow> ustring \<Rightarrow> ustring" where
  "py_upper U s = concat (map (py_upper_char U) s)"

definition py_isalpha_char :: "ucd \<Rightarrow> nat \<Rightarrow> bool" where
  "py_isalpha_char U c =
     (if c < 128 then ((65 \<le> c \<and> c \<le> 90) \<or> (97 \<le> c \<and> c \<le> 122)) else alpha U c)"

text \<open>\<open>str.isalpha()\<close>: false on the empty string.\<close>

definition py_isalpha :: "ucd \<Rightarrow> ustring \<Rightarrow> bool" where
  "py_isalpha U s = (s \<noteq> [] \<and> list_all (py_isalpha_char U) s)"

text \<open>\<open>str.strip()\<close> with no argument.\<close>

definition py_strip :: "ustring \<Rightarrow> ustring" where
  "py_strip s = rev (dropWhile py_isspace (rev (dropWhile py_isspace s)))"

text \<open>\<open>str.replace(old, new)\<close> for a one-character \<open>old\<close>.\<close>

definition py_replace1 :: "nat \<Rightarrow> ustring \<Rightarrow> ustring \<Rightarrow> ustring" where
  "py_replace1 old new s = concat (map (\<lambda>c. if c = old then new else [c]) s)"

text \<open>
  A table with no decimal digit, no case mapping and no letter beyond ASCII; it serves
  where a concrete table is needed and the text at hand is ASCII, Cyrillic or punctuation.
\<close>

definition ascii_ucd :: ucd where
  "ascii_ucd = \<lparr>nd_value = (\<lambda>c. None), up_full = (\<lambda>c. [c]), alpha = (\<lambda>c. False)\<rparr>"

section \<open>Floats\<close>

text \<open>
  A Python \<open>float\<close> is a binary double of IEEE 754: zero, or a number \<open>m * 2 ^ q\<close> with a
  whole \<open>m\<close> below \<open>2 ^ 53\<close> in size and \<open>q\<close> from \<open>-1074\<close> on. It is modelled by the
  rational number it is equal to. The infinities, the values that are not numbers and the
  sign of zero are left out: the doubles of the model have no largest element, where the
  interpreter's end a little below \<open>2 ^ 1024\<close> and every larger result is an infinity.
\<close>

text \<open>The whole number nearest to \<open>x\<close>, a tie going to the even one.\<close>

definition round_half_even :: "rat \<Rightarrow> int" where
  "round_half_even x =
     (let f = \<lfloor>x\<rfloor>; d = x - of_int f
      in if d < 1 / 2 then f else if 1 / 2 < d then f + 1 else if even f then f else f + 1)"

text \<open>
  The double nearest to \<open>x\<close>, a tie going to the one with the even \<open>m\<close>. \<open>y\<close> counts \<open>x\<close>
  in units of \<open>2 ^ -1074\<close>, the smallest positive double; \<open>bitlen\<close> is the number of binary
  digits of the whole part of \<open>y\<close>, and the doubles around \<open>x\<close> are \<open>2 ^ k\<close> such units
  apart. This is how \<open>float\<close> reads a decimal numeral and how every operation on floats
  rounds its exact result.
\<close>

definition double :: "rat \<Rightarrow> rat" where
  "double x =
     (let y = x * 2 ^ 1074; k = nat (bitlen \<lfloor>\<bar>y\<bar>\<rfloor> - 53)
      in of_int (round_half_even (y / 2 ^ k)) * 2 ^ k / 2 ^ 1074)"

text \<open>\<open>a + b\<close>, \<open>a - b\<close> and \<open>a / b\<close> on floats, the divisor not being zero.\<close>

definition float_add :: "rat \<Rightarrow> rat \<Rightarrow> rat" where
  "float_add a b = double (a + b)"

definition float_sub :: "rat \<Rightarrow> rat \<Rightarrow> rat" where
  "float_sub a b = double (a - b)"

definition float_div :: "rat \<Rightarrow> rat \<Rightarrow> rat" where
  "float_div a b = double (a / b)"

section \<open>The numeric normalizer\<close>

text \<open>
  Source, \<open>_num\<close> of \<open>tools/build_rates.py\<close>:
  \<^verbatim>\<open>
  def _num(x: str):
      if not x: return None
      x = x.strip().replace("\xa0"," ").replace(" ", "").replace(",", ".")
      m = re.search(r"^-?\d+(\.\d+)?$", x)
      if not m:
          m2 = re.search(r"(\d[\d\s]*[.,]\d+|\d+)", x)
          if not m2: return None
          x = m2.group(1).replace(" ", "").replace(",", ".")
      try:
          return float(x)
      except:
          return None
  \<close>
\<close>

text \<open>Line 40 of the source: the text both patterns are run on.\<close>

definition norm_text :: "ustring \<Rightarrow> ustring" where
  "norm_text x = py_replace1 44 [46] (py_replace1 32 [] (py_replace1 160 [32] (py_strip x)))"

text \<open>A non-empty run of decimal digits, \<open>\d+\<close> against a whole string.\<close>

definition digits1 :: "ucd \<Rightarrow> ustring \<Rightarrow> bool" where
  "digits1 U s = (s \<noteq> [] \<and> list_all (py_isdigit U) s)"

text \<open>\<open>\d+(\.\d+)?\<close> against a whole string.\<close>

definition strict_body :: "ucd \<Rightarrow> ustring \<Rightarrow> bool" where
  "strict_body U y =
     (digits1 U y \<or>
      list_ex (\<lambda>i. y ! i = 46 \<and> digits1 U (take i y) \<and> digits1 U (drop (Suc i) y))
        [0..<length y])"

text \<open>\<open>-?\d+(\.\d+)?\<close> against a whole string.\<close>

definition strict_signed :: "ucd \<Rightarrow> ustring \<Rightarrow> bool" where
  "strict_signed U y =
     (strict_body U y \<or> (case y of [] \<Rightarrow> False | c # t \<Rightarrow> c = 45 \<and> strict_body U t))"

text \<open>
  \<open>re.search(r"^-?\d+(\.\d+)?$", x)\<close> finds a match: \<open>^\<close> holds at the start only, and
  \<open>$\<close> holds at the end and just before a newline that ends the string.
\<close>

definition strict_match :: "ucd \<Rightarrow> ustring \<Rightarrow> bool" where
  "strict_match U x =
     (strict_signed U x \<or> (x \<noteq> [] \<and> last x = 10 \<and> strict_signed U (butlast x)))"

text \<open>
  The match of \<open>(\d[\d\s]*[.,]\d+|\d+)\<close> that starts at a digit \<open>c\<close> followed by \<open>rest\<close>.
  The first alternative is tried first: \<open>[\d\s]*\<close> takes the longest run of digits and
  whitespace; neither \<open>.\<close> nor \<open>,\<close> is in that class, so giving characters back cannot
  help, and the alternative matches exactly when the run is followed by a separator and a
  digit, \<open>\d+\<close> then taking every digit that follows. Otherwise the second alternative takes
  the digits from \<open>c\<close> on.
\<close>

definition loose_at :: "ucd \<Rightarrow> nat \<Rightarrow> ustring \<Rightarrow> ustring" where
  "loose_at U c rest =
     (let run = takeWhile (\<lambda>d. py_isdigit U d \<or> py_isspace d) rest;
          after = dropWhile (\<lambda>d. py_isdigit U d \<or> py_isspace d) rest
      in case after of
           sep # d # ds \<Rightarrow>
             if (sep = 46 \<or> sep = 44) \<and> py_isdigit U d
             then c # run @ sep # d # takeWhile (py_isdigit U) ds
             else c # takeWhile (py_isdigit U) rest
         | _ \<Rightarrow> c # takeWhile (py_isdigit U) rest)"

text \<open>
  \<open>re.search(r"(\d[\d\s]*[.,]\d+|\d+)", x)\<close>: group 1 of the leftmost match, \<open>None\<close> when
  there is none. Both alternatives start with a digit and the second matches at every digit,
  so the leftmost match starts at the first digit.
\<close>

fun loose_search :: "ucd \<Rightarrow> ustring \<Rightarrow> ustring option" where
  "loose_search U [] = None"
| "loose_search U (c # rest) =
     (if py_isdigit U c then Some (loose_at U c rest) else loose_search U rest)"

text \<open>The number a run of decimal digits denotes, most significant digit first.\<close>

definition digits_val :: "ucd \<Rightarrow> ustring \<Rightarrow> nat" where
  "digits_val U s = foldl (\<lambda>a c. 10 * a + the (py_decimal U c)) 0 s"

text \<open>
  The number a string of the shape \<open>digits[.digits]\<close> writes, \<open>None\<close> for any other
  string.
\<close>

definition float_unsigned :: "ucd \<Rightarrow> ustring \<Rightarrow> rat option" where
  "float_unsigned U s =
     (let a = takeWhile (\<lambda>c. c \<noteq> 46) s; r = dropWhile (\<lambda>c. c \<noteq> 46) s
      in case r of
           [] \<Rightarrow> if digits1 U a then Some (of_nat (digits_val U a)) else None
         | p # b \<Rightarrow>
             if digits1 U a \<and> digits1 U b
             then Some (of_nat (digits_val U a) + of_nat (digits_val U b) / 10 ^ length b)
             else None)"

text \<open>
  \<open>float(s)\<close> for the strings \<open>_num\<close> hands it, \<open>None\<close> when it raises. Such a string holds
  only decimal digits, whitespace, \<open>.\<close> and \<open>-\<close>, starts with a digit or with \<open>-\<close> and a
  digit, and ends with a digit (lemma \<open>float_arg_shape\<close> below). On these \<open>float\<close> reads
  every decimal digit by its value, accepts exactly the shape \<open>[-]digits[.digits]\<close> and
  raises \<open>ValueError\<close> on anything else, a whitespace character inside included; its
  result is the double nearest to the number written. The rest of what \<open>float\<close> accepts
  (exponents, underscores, \<open>inf\<close>, \<open>nan\<close>, a leading or trailing point, surrounding
  whitespace) cannot reach it from \<open>_num\<close> and is not modelled.
\<close>

definition py_float :: "ucd \<Rightarrow> ustring \<Rightarrow> rat option" where
  "py_float U s =
     (case s of
        [] \<Rightarrow> None
      | c # t \<Rightarrow>
          map_option double
            (if c = 45 then map_option uminus (float_unsigned U t) else float_unsigned U s))"

definition num_py :: "ucd \<Rightarrow> ustring \<Rightarrow> rat option" where
  "num_py U x =
     (if x = [] then None
      else let x1 = norm_text x
           in if strict_match U x1 then py_float U x1
              else (case loose_search U x1 of
                      None \<Rightarrow> None
                    | Some g \<Rightarrow> py_float U (py_replace1 44 [46] (py_replace1 32 [] g))))"

section \<open>Data\<close>

text \<open>The dataclasses \<open>Rate\<close> and \<open>BankRates\<close>; \<open>None\<close> is Python's \<open>None\<close>.\<close>

record Rate =
  ccy :: ustring
  buy :: "rat option"
  sell :: "rat option"

record BankRates =
  bank :: ustring
  date :: ustring
  rates :: "Rate list"
  source_url :: ustring

text \<open>An exception that \<open>except Exception\<close> catches.\<close>

datatype py_exn =
  FetchError ustring | ZeroDivisionError | TypeError | AttributeError | KeyError | ValueError

text \<open>
  What the scan reads from a parsed page. \<open>tables\<close> holds, for every element of
  \<open>soup.find_all("table")\<close>, the rows \<open>table.find_all("tr")\<close> gives; \<open>trs\<close> holds the rows
  of \<open>soup.find_all("tr")\<close>. A row is the list
  \<open>[td.get_text(" ", strip=True) for td in tr.find_all(["td","th"])]\<close> of its cell texts.
\<close>

record soup =
  tables :: "ustring list list list"
  trs :: "ustring list list"

text \<open>A value decoded by \<open>r.json()\<close>; an object keeps its members in order, keys unique.\<close>

datatype json =
  JNull | JBool bool | JNum rat | JStr ustring | JArr "json list" | JObj "(ustring \<times> json) list"

text \<open>
  What a run takes from outside the source file. \<open>today\<close> is \<open>TODAY\<close>; \<open>argv\<close> is
  \<open>sys.argv\<close>; \<open>fetch_html\<close> is the outcome, for a URL, of the two lines
  \<open>soup, html = fetch_html(url)\<close> and \<open>save_debug(bank, html)\<close> and of reading the rows
  off the page: the exception raised on the way, which the adapter's \<open>except\<close> catches, or
  the parsed page; \<open>cbu_get\<close> is the outcome of \<open>sess.get\<close>,
  \<open>raise_for_status\<close> and \<open>r.json()\<close> in \<open>cbu_reference\<close>; \<open>float_of\<close> is the builtin
  \<open>float\<close> on a decoded JSON value, with the exception it raises; \<open>compensated\<close> tells
  how the builtin \<open>sum\<close> of the interpreter adds floats: one after the other, as CPython
  does up to version 3.11, or with the correction term it carries along from version 3.12
  on.
\<close>

record env =
  today :: ustring
  argv :: "ustring list"
  fetch_html :: "ustring \<Rightarrow> py_exn + soup"
  cbu_get :: "ustring \<Rightarrow> py_exn + json"
  float_of :: "json \<Rightarrow> py_exn + rat"
  compensated :: bool

definition CCYS :: "ustring list" where
  "CCYS = map ustr [''USD'', ''EUR'', ''RUB'', ''GBP'', ''JPY'', ''CHF'', ''TRY'', ''CNY'', ''KZT'']"

text \<open>The tuple \<open>("USD","EUR","RUB")\<close>, also the set the four later adapters scan for.\<close>

definition MAJOR :: "ustring list" where
  "MAJOR = map ustr [''USD'', ''EUR'', ''RUB'']"

section \<open>Scanning a row\<close>

text \<open>\<open>next((c.upper() for c in cells if c.upper() in allowed), None)\<close>\<close>

definition find_ccy :: "ucd \<Rightarrow> ustring list \<Rightarrow> ustring list \<Rightarrow> ustring option" where
  "find_ccy U allowed cells =
     (case filter (\<lambda>c. py_upper U c \<in> set allowed) cells of
        [] \<Rightarrow> None
      | c # _ \<Rightarrow> Some (py_upper U c))"

text \<open>\<open>nums = [_num(c) for c in cells]; nums = [n for n in nums if n is not None]\<close>\<close>

definition row_nums :: "ucd \<Rightarrow> ustring list \<Rightarrow> rat list" where
  "row_nums U cells = List.map_filter (num_py U) cells"

text \<open>
  The body of Hamkorbank's row loop (lines 110 to 117): the rate the row appends, if any.
  \<open>nums[-2]\<close> and \<open>nums[-1]\<close> are in range under \<open>len(nums) >= 2\<close>.
\<close>

definition hamkor_row :: "ucd \<Rightarrow> ustring list \<Rightarrow> Rate option" where
  "hamkor_row U cells =
     (if cells = [] then None
      else case find_ccy U CCYS cells of
             None \<Rightarrow> None
           | Some c \<Rightarrow>
               (let nums = row_nums U cells
                in if 2 \<le> length nums
                   then Some \<lparr>ccy = c, buy = Some (nums ! (length nums - 2)),
                               sell = Some (nums ! (length nums - 1))\<rparr>
                   else None))"

text \<open>
  The body of the row loop of \<open>kapitalbank\<close>, \<open>agrobank\<close>, \<open>ipakyulibank\<close> and
  \<open>tbc_bank_uz\<close>, which is the same in the four functions (lines 145 to 152, 182 to 189,
  216 to 223, 248 to 255): the rate \<open>Rate(ccy, nums[0], nums[1])\<close> the row contributes.
\<close>

definition first_row :: "ucd \<Rightarrow> ustring list \<Rightarrow> Rate option" where
  "first_row U cells =
     (if cells = [] then None
      else case find_ccy U MAJOR cells of
             None \<Rightarrow> None
           | Some c \<Rightarrow>
               (let nums = row_nums U cells
                in if 2 \<le> length nums
                   then Some \<lparr>ccy = c, buy = Some (nums ! 0), sell = Some (nums ! 1)\<rparr>
                   else None))"

text \<open>The list \<open>rates\<close> after Hamkorbank's two nested loops over tables and rows.\<close>

definition hamkor_scan :: "ucd \<Rightarrow> soup \<Rightarrow> Rate list" where
  "hamkor_scan U sp = List.map_filter (hamkor_row U) (concat (tables sp))"

text \<open>
  The list \<open>rates\<close> after the row loop of Agrobank, Ipak Yuli Bank and TBC Bank. The rates
  that Kapitalbank's row loop files under their currencies are the same, in the same order
  (lemma \<open>kapital_bag_fold\<close>).
\<close>

definition first_scan :: "ucd \<Rightarrow> soup \<Rightarrow> Rate list" where
  "first_scan U sp = List.map_filter (first_row U) (trs sp)"

section \<open>The adapters that keep the majors\<close>

text \<open>\<open>dedup = {r.ccy: r for r in rates}\<close>: a later rate replaces an earlier one of its key.\<close>

definition dedup :: "Rate list \<Rightarrow> (ustring \<rightharpoonup> Rate)" where
  "dedup rs = fold (\<lambda>r m. m(ccy r \<mapsto> r)) rs Map.empty"

text \<open>\<open>major = [dedup[c] for c in ("USD","EUR","RUB") if c in dedup]\<close>\<close>

definition major_of :: "Rate list \<Rightarrow> Rate list" where
  "major_of rs = List.map_filter (dedup rs) MAJOR"

text \<open>
  The loop \<open>for url in urls\<close> of \<open>hamkorbank\<close>, \<open>agrobank\<close>, \<open>ipakyulibank\<close> and
  \<open>tbc_bank_uz\<close>; the four differ in the scan, the bank name and the URLs only. \<open>Some\<close> is
  the \<open>return\<close> inside the loop, \<open>None\<close> is falling out of it.
\<close>

fun try_urls :: "env \<Rightarrow> (soup \<Rightarrow> Rate list) \<Rightarrow> ustring \<Rightarrow> ustring list \<Rightarrow> BankRates option" where
  "try_urls E scan name [] = None"
| "try_urls E scan name (url # urls) =
     (case fetch_html E url of
        Inl e \<Rightarrow> try_urls E scan name urls
      | Inr sp \<Rightarrow>
          (let rs = scan sp
           in if rs \<noteq> []
              then (let major = major_of rs
                    in if major \<noteq> []
                       then Some \<lparr>bank = name, date = today E, rates = major, source_url = url\<rparr>
                       else try_urls E scan name urls)
              else try_urls E scan name urls))"

text \<open>The adapter: the loop, then the \<open>return\<close> after it with \<open>urls[0]\<close>.\<close>

definition major_adapter ::
    "env \<Rightarrow> (soup \<Rightarrow> Rate list) \<Rightarrow> ustring \<Rightarrow> ustring list \<Rightarrow> BankRates" where
  "major_adapter E scan name urls =
     (case try_urls E scan name urls of
        Some br \<Rightarrow> br
      | None \<Rightarrow> \<lparr>bank = name, date = today E, rates = [], source_url = hd urls\<rparr>)"

definition hamkorbank_urls :: "ustring list" where
  "hamkorbank_urls =
     map ustr [''https://hamkorbank.uz/ru/exchange-rate/'',
               ''https://hamkorbank.uz/en/exchange-rate/'']"

definition hamkorbank :: "ucd \<Rightarrow> env \<Rightarrow> BankRates" where
  "hamkorbank U E = major_adapter E (hamkor_scan U) (ustr ''Hamkorbank'') hamkorbank_urls"

definition agrobank_urls :: "ustring list" where
  "agrobank_urls =
     map ustr [''https://agrobank.uz/ru/person'', ''https://agrobank.uz/ru/individuals'',
               ''https://agrobank.uz/en/person'']"

definition agrobank :: "ucd \<Rightarrow> env \<Rightarrow> BankRates" where
  "agrobank U E = major_adapter E (first_scan U) (ustr ''Agrobank'') agrobank_urls"

definition ipakyulibank_urls :: "ustring list" where
  "ipakyulibank_urls =
     map ustr [''https://ipakyulibank.uz/ru'', ''https://ipakyulibank.uz/ru/exchange-rates'',
               ''https://ipakyulibank.uz/ru/individuals/exchange-rates'',
               ''https://ipakyulibank.uz/en'']"

definition ipakyulibank :: "ucd \<Rightarrow> env \<Rightarrow> BankRates" where
  "ipakyulibank U E =
     major_adapter E (first_scan U) (ustr ''Ipak Yuli Bank'') ipakyulibank_urls"

definition tbc_bank_uz_urls :: "ustring list" where
  "tbc_bank_uz_urls = map ustr [''https://tbcbank.uz/ru'', ''https://tbcbank.uz/en'']"

definition tbc_bank_uz :: "ucd \<Rightarrow> env \<Rightarrow> BankRates" where
  "tbc_bank_uz U E =
     major_adapter E (first_scan U) (ustr ''TBC Bank Uzbekistan'') tbc_bank_uz_urls"

section \<open>Kapitalbank\<close>

text \<open>
  \<open>bag.setdefault(ccy, []).append(r)\<close> on a dictionary that keeps its keys in insertion
  order: the pairs are the items of \<open>bag\<close> in the order \<open>bag.items()\<close> yields them.
\<close>

fun bag_append :: "ustring \<Rightarrow> Rate \<Rightarrow> (ustring \<times> Rate list) list \<Rightarrow> (ustring \<times> Rate list) list" where
  "bag_append k r [] = [(k, [r])]"
| "bag_append k r ((k', arr) # bag) =
     (if k' = k then (k', arr @ [r]) # bag else (k', arr) # bag_append k r bag)"

text \<open>The dictionary \<open>bag\<close> after the row loop (lines 143 to 152).\<close>

definition kapital_bag :: "ucd \<Rightarrow> ustring list list \<Rightarrow> (ustring \<times> Rate list) list" where
  "kapital_bag U rows =
     foldl (\<lambda>bag cells. case first_row U cells of
                           None \<Rightarrow> bag
                         | Some r \<Rightarrow> bag_append (ccy r) r bag) [] rows"

text \<open>
  \<open>sum\<close> from version 3.12 on, once it has met a float: \<open>f\<close> is the running sum and \<open>c\<close>
  collects what each addition rounded away (Neumaier's variant of compensated summation);
  at the end \<open>c\<close> is added unless it is zero.
\<close>

fun neumaier :: "rat \<Rightarrow> rat \<Rightarrow> rat list \<Rightarrow> rat" where
  "neumaier f c [] = (if c = 0 then f else float_add f c)"
| "neumaier f c (x # xs) =
     (let t = float_add f x
      in neumaier t
           (float_add c (if \<bar>x\<bar> \<le> \<bar>f\<bar> then float_add (float_sub f t) x
                         else float_add (float_sub x t) f)) xs)"

text \<open>
  \<open>sum(vs)\<close> for a sequence of floats. It starts from the integer \<open>0\<close>, which is the result
  for the empty sequence; the first float is added to that \<open>0\<close>, the others to the float
  reached so far.
\<close>

definition py_sum :: "env \<Rightarrow> rat list \<Rightarrow> rat" where
  "py_sum E vs =
     (case vs of
        [] \<Rightarrow> 0
      | v # ws \<Rightarrow>
          if compensated E then neumaier (float_add 0 v) 0 ws
          else foldl float_add (float_add 0 v) ws)"

text \<open>
  \<open>sum(v for v in vs if v is not None) / n\<close> for an integer \<open>n\<close>, which raises when \<open>n\<close>
  is zero and else turns \<open>n\<close> into a float and divides.
\<close>

definition mean_of :: "env \<Rightarrow> rat option list \<Rightarrow> nat \<Rightarrow> py_exn + rat" where
  "mean_of E vs n =
     (if n = 0 then Inl ZeroDivisionError
      else Inr (float_div (py_sum E (List.map_filter (\<lambda>v. v) vs)) (double (of_nat n))))"

text \<open>
  \<open>round(x, 2)\<close> on a float: the exact value of \<open>x\<close> is rounded to a whole number of
  hundredths, a tie going to the even one, and the result is the double nearest to that.
\<close>

definition py_round2 :: "rat \<Rightarrow> rat" where
  "py_round2 x = double (of_int (round_half_even (x * 100)) / 100)"

text \<open>The list \<open>out\<close> after the loop over \<open>bag.items()\<close> (lines 154 to 158).\<close>

fun kapital_out :: "env \<Rightarrow> (ustring \<times> Rate list) list \<Rightarrow> py_exn + Rate list" where
  "kapital_out E [] = Inr []"
| "kapital_out E ((c, arr) # bag) =
     (case mean_of E (map buy arr) (length arr) of
        Inl e \<Rightarrow> Inl e
      | Inr b \<Rightarrow>
          (case mean_of E (map sell arr) (length arr) of
             Inl e \<Rightarrow> Inl e
           | Inr s \<Rightarrow>
               (case kapital_out E bag of
                  Inl e \<Rightarrow> Inl e
                | Inr out \<Rightarrow>
                    Inr (\<lparr>ccy = c, buy = Some (py_round2 b), sell = Some (py_round2 s)\<rparr> # out))))"

definition kapitalbank_urls :: "ustring list" where
  "kapitalbank_urls =
     map ustr [''https://www.kapitalbank.uz/ru/services/exchange-rates-new/'',
               ''https://www.kapitalbank.uz/ru/services/exchange-rates/'',
               ''https://www.kapitalbank.uz/en/services/exchange-rates-new/'',
               ''https://www.kapitalbank.uz/services/exchange-rates-new/'']"

text \<open>
  The loop \<open>for url in urls\<close> of \<open>kapitalbank\<close> and the two statements after it; \<open>lst\<close>
  is the variable \<open>last\<close>. \<open>Inl\<close> is \<open>raise last\<close>; an exception object is true in
  \<open>if last:\<close>. \<open>sorted(out, key=lambda r: r.ccy)\<close> is a stable sort.
\<close>

fun kapital_loop :: "ucd \<Rightarrow> env \<Rightarrow> py_exn option \<Rightarrow> ustring list \<Rightarrow> py_exn + BankRates" where
  "kapital_loop U E lst [] =
     (case lst of
        Some e \<Rightarrow> Inl e
      | None \<Rightarrow> Inr \<lparr>bank = ustr ''Kapitalbank'', date = today E, rates = [],
                       source_url = hd kapitalbank_urls\<rparr>)"
| "kapital_loop U E lst (url # urls) =
     (case fetch_html E url of
        Inl e \<Rightarrow> kapital_loop U E (Some e) urls
      | Inr sp \<Rightarrow>
          (case kapital_out E (kapital_bag U (trs sp)) of
             Inl e \<Rightarrow> kapital_loop U E (Some e) urls
           | Inr out \<Rightarrow>
               if out \<noteq> []
               then Inr \<lparr>bank = ustr ''Kapitalbank'', date = today E,
                          rates = sort_key ccy out, source_url = url\<rparr>
               else kapital_loop U E lst urls))"

definition kapitalbank :: "ucd \<Rightarrow> env \<Rightarrow> py_exn + BankRates" where
  "kapitalbank U E = kapital_loop U E None kapitalbank_urls"

section \<open>The reference fallback\<close>

text \<open>The truth value of a decoded JSON value, as \<open>if x.get("Ccy")\<close> tests it.\<close>

fun truthy :: "json \<Rightarrow> bool" where
  "truthy JNull = False"
| "truthy (JBool b) = b"
| "truthy (JNum q) = (q \<noteq> 0)"
| "truthy (JStr s) = (s \<noteq> [])"
| "truthy (JArr xs) = (xs \<noteq> [])"
| "truthy (JObj kvs) = (kvs \<noteq> [])"

text \<open>
  \<open>for x in data\<close>: a list yields its elements, a dictionary its keys, a string its
  characters; anything else is not iterable.
\<close>

fun iter_json :: "json \<Rightarrow> py_exn + json list" where
  "iter_json (JArr xs) = Inr xs"
| "iter_json (JObj kvs) = Inr (map (\<lambda>kv. JStr (fst kv)) kvs)"
| "iter_json (JStr s) = Inr (map (\<lambda>c. JStr [c]) s)"
| "iter_json v = Inl TypeError"

text \<open>
  The dictionary comprehension of line 284, one element at a time: \<open>x.get("Ccy")\<close> needs a
  dictionary, \<open>x["Ccy"].upper()\<close> a string, \<open>x["Rate"]\<close> the key, and \<open>float\<close> may raise.
\<close>

fun cbu_dict :: "ucd \<Rightarrow> env \<Rightarrow> json list \<Rightarrow> (ustring \<rightharpoonup> rat) \<Rightarrow> py_exn + (ustring \<rightharpoonup> rat)" where
  "cbu_dict U E [] d = Inr d"
| "cbu_dict U E (x # xs) d =
     (case x of
        JObj kvs \<Rightarrow>
          (case map_of kvs (ustr ''Ccy'') of
             None \<Rightarrow> cbu_dict U E xs d
           | Some v \<Rightarrow>
               if \<not> truthy v then cbu_dict U E xs d
               else (case v of
                       JStr s \<Rightarrow>
                         (case map_of kvs (ustr ''Rate'') of
                            None \<Rightarrow> Inl KeyError
                          | Some rv \<Rightarrow>
                              (case float_of E rv of
                                 Inl e \<Rightarrow> Inl e
                               | Inr q \<Rightarrow> cbu_dict U E xs (d(py_upper U s \<mapsto> q))))
                     | _ \<Rightarrow> Inl AttributeError))
      | _ \<Rightarrow> Inl AttributeError)"

text \<open>The loop over \<open>("USD","EUR","RUB")\<close> that fills \<open>wanted\<close>.\<close>

definition cbu_wanted :: "(ustring \<rightharpoonup> rat) \<Rightarrow> Rate list" where
  "cbu_wanted d =
     List.map_filter
       (\<lambda>c. case d c of
              None \<Rightarrow> None
            | Some q \<Rightarrow> Some \<lparr>ccy = c, buy = Some q, sell = Some q\<rparr>) MAJOR"

definition cbu_url :: "env \<Rightarrow> ustring" where
  "cbu_url E = ustr ''https://cbu.uz/ru/arkhiv-kursov-valyut/json/all/'' @ today E @ ustr ''/''"

text \<open>The bank name of the fallback entry, \<open>CBU (\<close>spravochno\<open>)\<close> in Cyrillic letters.\<close>

definition cbu_name :: ustring where
  "cbu_name = ustr ''CBU ('' @ [1089, 1087, 1088, 1072, 1074, 1086, 1095, 1085, 1086] @ ustr '')''"

text \<open>The body of the \<open>try\<close> in \<open>cbu_reference\<close>: \<open>Inr None\<close> is leaving it with no \<open>return\<close>.\<close>

definition cbu_try :: "ucd \<Rightarrow> env \<Rightarrow> py_exn + BankRates option" where
  "cbu_try U E =
     (case cbu_get E (cbu_url E) of
        Inl e \<Rightarrow> Inl e
      | Inr data \<Rightarrow>
          (case iter_json data of
             Inl e \<Rightarrow> Inl e
           | Inr xs \<Rightarrow>
               (case cbu_dict U E xs Map.empty of
                  Inl e \<Rightarrow> Inl e
                | Inr d \<Rightarrow>
                    (let wanted = cbu_wanted d
                     in if wanted \<noteq> []
                        then Inr (Some \<lparr>bank = cbu_name, date = today E, rates = wanted,
                                         source_url = cbu_url E\<rparr>)
                        else Inr None))))"

text \<open>\<open>cbu_reference\<close>: the handler prints and the function returns \<open>None\<close>.\<close>

definition cbu_reference :: "ucd \<Rightarrow> env \<Rightarrow> BankRates option" where
  "cbu_reference U E = (case cbu_try U E of Inl e \<Rightarrow> None | Inr res \<Rightarrow> res)"

section \<open>The orchestrator\<close>

text \<open>\<open>ONLY = next((arg for arg in sys.argv[1:] if arg.isalpha() and arg != "--debug"), None)\<close>\<close>

definition ONLY :: "ucd \<Rightarrow> env \<Rightarrow> ustring option" where
  "ONLY U E =
     (case filter (\<lambda>a. py_isalpha U a \<and> a \<noteq> ustr ''--debug'') (tl (argv E)) of
        [] \<Rightarrow> None
      | a # _ \<Rightarrow> Some a)"

text \<open>
  The list \<open>ADAPTERS\<close>, every function with its \<open>__name__\<close>. Only \<open>kapitalbank\<close> has a
  \<open>raise\<close>; the other four always return.
\<close>

definition ADAPTERS :: "(ustring \<times> (ucd \<Rightarrow> env \<Rightarrow> py_exn + BankRates)) list" where
  "ADAPTERS =
     [(ustr ''hamkorbank'', \<lambda>U E. Inr (hamkorbank U E)),
      (ustr ''agrobank'', \<lambda>U E. Inr (agrobank U E)),
      (ustr ''kapitalbank'', kapitalbank),
      (ustr ''ipakyulibank'', \<lambda>U E. Inr (ipakyulibank U E)),
      (ustr ''tbc_bank_uz'', \<lambda>U E. Inr (tbc_bank_uz U E))]"

text \<open>\<open>used = [fn for fn in ADAPTERS if (ONLY is None or fn.__name__ == ONLY)]\<close>\<close>

definition used :: "ucd \<Rightarrow> env \<Rightarrow> (ustring \<times> (ucd \<Rightarrow> env \<Rightarrow> py_exn + BankRates)) list" where
  "used U E = filter (\<lambda>p. ONLY U E = None \<or> Some (fst p) = ONLY U E) ADAPTERS"

text \<open>
  The loop \<open>for fn in used\<close>: \<open>out\<close> grows by the entry of every adapter that returns a
  non-empty rate list; an adapter that raises adds nothing. An entry of \<open>out\<close> is the
  dictionary with the four fields of the \<open>BankRates\<close>, the rates as \<open>asdict\<close> gives them,
  and is modelled by that \<open>BankRates\<close>.
\<close>

fun collect :: "ucd \<Rightarrow> env \<Rightarrow> (ustring \<times> (ucd \<Rightarrow> env \<Rightarrow> py_exn + BankRates)) list \<Rightarrow>
    BankRates list \<Rightarrow> BankRates list" where
  "collect U E [] out = out"
| "collect U E (p # ps) out =
     (case snd p U E of
        Inl e \<Rightarrow> collect U E ps out
      | Inr br \<Rightarrow> if rates br \<noteq> [] then collect U E ps (out @ [br]) else collect U E ps out)"

text \<open>
  What a run of \<open>main\<close> does: the functions it calls, in order, by name, and the list it
  hands to \<open>json.dump\<close> for \<open>public/rates.json\<close>; \<open>json.dump\<close> writes the empty list as
  the text \<open>[]\<close>. Creating the directory and writing the file are taken to succeed.
\<close>

record run =
  calls :: "ustring list"
  written :: "BankRates list"

definition main :: "ucd \<Rightarrow> env \<Rightarrow> run" where
  "main U E =
     (let out = collect U E (used U E) []
      in if out = []
         then (case cbu_reference U E of
                 Some ref \<Rightarrow> \<lparr>calls = map fst (used U E) @ [ustr ''cbu_reference''],
                               written = out @ [ref]\<rparr>
               | None \<Rightarrow> \<lparr>calls = map fst (used U E) @ [ustr ''cbu_reference''],
                            written = out\<rparr>)
         else \<lparr>calls = map fst (used U E), written = out\<rparr>)"

section \<open>Notions used in the statements\<close>

text \<open>
  A statement about \<open>dedup\<close>: of the scanned rates of each major currency, the kept list
  holds exactly the last one.
\<close>

definition keeps_last :: "Rate list \<Rightarrow> Rate list \<Rightarrow> bool" where
  "keeps_last scanned kept =
     (\<forall>c \<in> set MAJOR. filter (\<lambda>r. ccy r = c) scanned \<noteq> [] \<longrightarrow>
        filter (\<lambda>r. ccy r = c) kept = [last (filter (\<lambda>r. ccy r = c) scanned)])"

text \<open>The arithmetic mean of a list of numbers.\<close>

definition mean :: "rat list \<Rightarrow> rat" where
  "mean xs = sum_list xs / of_nat (length xs)"

text \<open>The quotient \<open>sum(xs) / len(xs)\<close> for a list of floats, as the interpreter computes it.\<close>

definition float_mean :: "env \<Rightarrow> rat list \<Rightarrow> rat" where
  "float_mean E xs = float_div (py_sum E xs) (double (of_nat (length xs)))"

text \<open>The rate of currency \<open>c\<close> with the given buy and sell price.\<close>

definition quote :: "ustring \<Rightarrow> rat \<times> rat \<Rightarrow> Rate" where
  "quote c p = \<lparr>ccy = c, buy = Some (fst p), sell = Some (snd p)\<rparr>"

text \<open>
  A statement about an adapter's result \<open>br\<close>: its currencies are the majors that occur among
  the scanned rates, in the order of \<open>MAJOR\<close>, and the scanned rates are those of the page
  at the source URL whenever there is a rate at all.
\<close>

definition majors_of_scan :: "env \<Rightarrow> (soup \<Rightarrow> Rate list) \<Rightarrow> BankRates \<Rightarrow> bool" where
  "majors_of_scan E scan br =
     (\<exists>scanned. map ccy (rates br) = filter (\<lambda>c. c \<in> ccy ` set scanned) MAJOR \<and>
        (rates br \<noteq> [] \<longrightarrow> (\<exists>sp. fetch_html E (source_url br) = Inr sp \<and> scanned = scan sp)))"

text \<open>A rate with an allow-listed currency code and both prices present.\<close>

definition rate_ok :: "Rate \<Rightarrow> bool" where
  "rate_ok r = (ccy r \<in> set CCYS \<and> buy r \<noteq> None \<and> sell r \<noteq> None)"

text \<open>An adapter call that adds nothing to \<open>out\<close>: it raises, or returns no rate.\<close>

definition no_result :: "ucd \<Rightarrow> env \<Rightarrow> ustring \<times> (ucd \<Rightarrow> env \<Rightarrow> py_exn + BankRates) \<Rightarrow> bool" where
  "no_result U E p = (case snd p U E of Inl e \<Rightarrow> True | Inr br \<Rightarrow> rates br = [])"

text \<open>
  The decoded reference data \<open>xs\<close> has an entry for currency \<open>c\<close> with reference value
  \<open>q\<close>: a dictionary whose \<open>Ccy\<close> is a non-empty string with upper-case form \<open>c\<close> and whose
  \<open>Rate\<close> converts to \<open>q\<close>.
\<close>

definition in_data :: "ucd \<Rightarrow> env \<Rightarrow> json list \<Rightarrow> ustring \<Rightarrow> rat \<Rightarrow> bool" where
  "in_data U E xs c q =
     (\<exists>kvs s rv. JObj kvs \<in> set xs \<and> map_of kvs (ustr ''Ccy'') = Some (JStr s) \<and> s \<noteq> [] \<and>
        py_upper U s = c \<and> map_of kvs (ustr ''Rate'') = Some rv \<and> float_of E rv = Inr q)"





text \<open>
  The three replacements of line 40 done in one pass (lemma \<open>norm_chars_eq\<close>): spaces and
  non-breaking spaces go, a comma becomes a point.
\<close>

definition norm_chars :: "ustring \<Rightarrow> ustring" where
  "norm_chars m =
     concat (map (\<lambda>c. if c = 160 \<or> c = 32 then [] else if c = 44 then [46] else [c]) m)"

text \<open>The string \<open>_num\<close> hands to \<open>float\<close>, when it gets that far.\<close>

definition float_input :: "ucd \<Rightarrow> ustring \<Rightarrow> ustring option" where
  "float_input U x =
     (if x = [] then None
      else let x1 = norm_text x
           in if strict_match U x1 then Some x1
              else map_option (\<lambda>g. py_replace1 44 [46] (py_replace1 32 [] g))
                     (loose_search U x1))"

text \<open>
  The shape of such a string: only decimal digits, whitespace, \<open>.\<close> and \<open>-\<close>; a digit, or
  \<open>-\<close> and a digit, at the start; a digit at the end.
\<close>

definition float_shape :: "ucd \<Rightarrow> ustring \<Rightarrow> bool" where
  "float_shape U y =
     (list_all (\<lambda>c. py_isdigit U c \<or> py_isspace c \<or> c = 46 \<or> c = 45) y \<and> y \<noteq> [] \<and>
      (py_isdigit U (hd y) \<or> (hd y = 45 \<and> tl y \<noteq> [] \<and> py_isdigit U (hd (tl y)))) \<and>
      py_isdigit U (last y))"

section \<open>Sample inputs\<close>

text \<open>Concrete inputs on which the theorems below are instantiated.\<close>

text \<open>
  No network: every fetch raises. The run date is fixed, there is no argument, and \<open>sum\<close>
  adds one float after the other.
\<close>

definition no_net :: env where
  "no_net = \<lparr>today = ustr ''2025-01-01'', argv = [ustr ''build_rates.py''],
             fetch_html = (\<lambda>u. Inl (FetchError u)), cbu_get = (\<lambda>u. Inl (FetchError u)),
             float_of = (\<lambda>v. Inl ValueError), compensated = False\<rparr>"

text \<open>Every URL serves the page \<open>sp\<close>; the reference endpoint stays out of reach.\<close>

definition page_env :: "soup \<Rightarrow> env" where
  "page_env sp = no_net\<lparr>fetch_html := (\<lambda>u. Inr sp)\<rparr>"

text \<open>A page with one table that holds the given rows.\<close>

definition rows_page :: "ustring list list \<Rightarrow> soup" where
  "rows_page rows = \<lparr>tables = [rows], trs = rows\<rparr>"

text \<open>The same machine, started with one argument.\<close>

definition only_env :: "ustring \<Rightarrow> soup \<Rightarrow> env" where
  "only_env name sp = (page_env sp)\<lparr>argv := [ustr ''build_rates.py'', name]\<rparr>"

text \<open>A run started as \<open>python tools/build_rates.py\<close> followed by the given arguments.\<close>

definition args_env :: "ustring list \<Rightarrow> env" where
  "args_env args = no_net\<lparr>argv := ustr ''tools/build_rates.py'' # args\<rparr>"

text \<open>
  The reference endpoint answers with one USD entry whose \<open>Rate\<close> is the given value;
  \<open>float\<close> accepts the text \<open>12345.0\<close> and raises on everything else.
\<close>

definition cbu_env :: "json \<Rightarrow> env" where
  "cbu_env rate =
     no_net\<lparr>cbu_get := (\<lambda>u. Inr (JArr [JObj [(ustr ''Ccy'', JStr (ustr ''USD'')),
                                               (ustr ''Rate'', rate)]])),
            float_of := (\<lambda>v. if v = JStr (ustr ''12345.0'') then Inr 12345 else Inl ValueError)\<rparr>"

text \<open>A row that starts with a running number.\<close>

definition indexed_row :: "ustring list" where
  "indexed_row = map ustr [''1'', ''USD'', ''12300'', ''12450'']"

text \<open>Two rows for USD, the second with the code in lower case.\<close>

definition usd_twice :: "ustring list list" where
  "usd_twice = [map ustr [''USD'', ''12300'', ''12450''], map ustr [''usd'', ''12310'', ''12460'']]"

text \<open>Two rows for EUR.\<close>

definition eur_twice :: "ustring list list" where
  "eur_twice = [[ustr ''EUR'', ustr ''100'', ustr ''105''], [ustr ''EUR'', ustr ''102'', ustr ''107'']]"

text \<open>Rows for USD, GBP, RUB and EUR, in this order.\<close>

definition mixed_rows :: "ustring list list" where
  "mixed_rows =
     [[ustr ''USD'', ustr ''12300'', ustr ''12450''], [ustr ''GBP'', ustr ''15000'', ustr ''15500''],
      [ustr ''RUB'', ustr ''150'', ustr ''160''], [ustr ''EUR'', ustr ''13000'', ustr ''13200'']]"

text \<open>A row whose prices end in half a hundredth.\<close>

definition half_cent_row :: "ustring list" where
  "half_cent_row = [ustr ''USD'', ustr ''2.675'', ustr ''1.005'']"

section \<open>Proofs\<close>

subsection \<open>Doubles\<close>

lemma round_half_even_near: "\<bar>of_int (round_half_even x) - x\<bar> \<le> 1 / 2"
proof -
  have "of_int \<lfloor>x\<rfloor> \<le> x" "x < of_int \<lfloor>x\<rfloor> + 1" by linarith+
  then show ?thesis by (auto simp: round_half_even_def Let_def abs_le_iff)
qed

lemma round_half_even_int: "round_half_even (of_int n) = n"
  by (simp add: round_half_even_def)

lemma bitlen_range: "2 ^ m \<le> n \<Longrightarrow> n < 2 ^ Suc m \<Longrightarrow> bitlen n = int m + 1"
proof -
  assume a: "2 ^ m \<le> n" "n < 2 ^ Suc m"
  have "bitlen n \<le> int (Suc m)"
    using a(2) by (simp only: bitlen_le_iff_power nat_int of_nat_0_le_iff simp_thms)
  moreover have "int (Suc m) \<le> bitlen n"
    using a(1) by (simp only: bitlen_ge_iff_power nat_int diff_Suc_1 simp_thms)
  ultimately show ?thesis by simp
qed

lemma double_quantum:
  assumes lo: "2 ^ (52 + k) \<le> \<bar>x\<bar> * 2 ^ 1074" and hi: "\<bar>x\<bar> * 2 ^ 1074 < 2 ^ (53 + k)"
  shows "double x = of_int (round_half_even (x * 2 ^ 1074 / 2 ^ k)) * 2 ^ k / 2 ^ 1074"
proof -
  let ?y = "x * 2 ^ 1074"
  have y: "\<bar>?y\<bar> = \<bar>x\<bar> * 2 ^ 1074" by (simp add: abs_mult)
  have "of_int (2 ^ (52 + k)) \<le> \<bar>?y\<bar>" using lo by (simp only: y of_int_power of_int_numeral)
  then have 1: "2 ^ (52 + k) \<le> \<lfloor>\<bar>?y\<bar>\<rfloor>" by (simp only: le_floor_iff)
  have "\<bar>?y\<bar> < of_int (2 ^ (53 + k))" using hi by (simp only: y of_int_power of_int_numeral)
  then have 2: "\<lfloor>\<bar>?y\<bar>\<rfloor> < 2 ^ Suc (52 + k)" by (simp only: floor_less_iff) simp
  have "bitlen \<lfloor>\<bar>?y\<bar>\<rfloor> = int (52 + k) + 1" using 1 2 by (rule bitlen_range)
  then have "nat (bitlen \<lfloor>\<bar>?y\<bar>\<rfloor> - 53) = k" by simp
  then show ?thesis by (simp add: double_def Let_def)
qed

lemma double_scaled:
  assumes s: "s \<le> 1074" and lo: "2 ^ 52 \<le> \<bar>x\<bar> * 2 ^ s" and hi: "\<bar>x\<bar> * 2 ^ s < 2 ^ 53"
  shows "double x = of_int (round_half_even (x * 2 ^ s)) / 2 ^ s"
proof -
  define k where "k = 1074 - s"
  have "s + k = 1074" using s by (simp add: k_def)
  then have p: "(2::rat) ^ 1074 = 2 ^ s * 2 ^ k" by (simp only: flip: power_add)
  have "(2::rat) ^ 52 * 2 ^ k \<le> (\<bar>x\<bar> * 2 ^ s) * 2 ^ k"
    by (rule mult_right_mono [OF lo]) simp
  then have "2 ^ (52 + k) \<le> \<bar>x\<bar> * 2 ^ 1074" by (simp only: p power_add mult.assoc)
  moreover have "(\<bar>x\<bar> * 2 ^ s) * 2 ^ k < (2::rat) ^ 53 * 2 ^ k"
    by (rule mult_strict_right_mono [OF hi]) simp
  then have "\<bar>x\<bar> * 2 ^ 1074 < 2 ^ (53 + k)" by (simp only: p power_add mult.assoc)
  ultimately have "double x = of_int (round_half_even (x * 2 ^ 1074 / 2 ^ k)) * 2 ^ k / 2 ^ 1074"
    by (rule double_quantum)
  also have "x * 2 ^ 1074 / 2 ^ k = x * 2 ^ s" by (simp only: p) simp
  also have "of_int (round_half_even (x * 2 ^ s)) * 2 ^ k / (2::rat) ^ 1074 =
      of_int (round_half_even (x * 2 ^ s)) / 2 ^ s"
    by (simp only: p) simp
  finally show ?thesis .
qed

lemma double_0: "double 0 = 0"
  by (simp add: double_def round_half_even_def)

lemma double_of_int:
  assumes "\<bar>n\<bar> < 2 ^ 53"
  shows "double (of_int n) = of_int n"
proof (cases "n = 0")
  case True
  then show ?thesis by (simp add: double_0)
next
  case False
  define m where "m = nat (bitlen \<bar>n\<bar> - 1)"
  from False have pos: "0 < \<bar>n\<bar>" by simp
  then have "bitlen \<bar>n\<bar> \<noteq> 0" by (simp add: bitlen_eq_zero_iff)
  with bitlen_nonneg [of "\<bar>n\<bar>"] have "nat (bitlen \<bar>n\<bar>) = Suc m" by (simp add: m_def)
  with bitlen_bounds [OF pos] have b: "2 ^ m \<le> \<bar>n\<bar>" "\<bar>n\<bar> < 2 ^ Suc m"
    by (simp_all only: m_def)
  have "(2::int) ^ m < 2 ^ 53" using b(1) assms by linarith
  then have m53: "m < 53" by (simp only: power_strict_increasing_iff) 
  define s where "s = 52 - m"
  have e: "m + s = 52" "Suc m + s = 53" using m53 by (simp_all add: s_def)
  have "(2::int) ^ m * 2 ^ s \<le> \<bar>n\<bar> * 2 ^ s"
    by (rule mult_right_mono [OF b(1)]) simp
  then have "(2::int) ^ 52 \<le> \<bar>n\<bar> * 2 ^ s" by (simp only: e flip: power_add)
  then have "(of_int ((2::int) ^ 52) :: rat) \<le> of_int (\<bar>n\<bar> * 2 ^ s)" by (simp only: of_int_le_iff)
  then have lo: "(2::rat) ^ 52 \<le> \<bar>of_int n\<bar> * 2 ^ s" by simp
  have "\<bar>n\<bar> * 2 ^ s < (2::int) ^ Suc m * 2 ^ s"
    by (rule mult_strict_right_mono [OF b(2)]) simp
  then have "\<bar>n\<bar> * 2 ^ s < (2::int) ^ 53" by (simp only: e flip: power_add)
  then have "(of_int (\<bar>n\<bar> * 2 ^ s) :: rat) < of_int ((2::int) ^ 53)" by (simp only: of_int_less_iff)
  then have hi: "\<bar>of_int n :: rat\<bar> * 2 ^ s < 2 ^ 53" by simp
  have "s \<le> 1074" by (simp add: s_def)
  from double_scaled [OF this lo hi]
  have "double (of_int n) = of_int (round_half_even (of_int (n * 2 ^ s))) / 2 ^ s" by simp
  then show ?thesis by (simp only: round_half_even_int) simp
qed

lemma double_whole: "x \<in> \<int> \<Longrightarrow> \<bar>x\<bar> < 2 ^ 53 \<Longrightarrow> double x = x"
proof -
  assume "x \<in> \<int>" and b: "\<bar>x\<bar> < 2 ^ 53"
  then obtain n where n: "x = of_int n" by (auto elim: Ints_cases)
  with b have "(of_int \<bar>n\<bar> :: rat) < of_int (2 ^ 53)" by simp
  then have "\<bar>n\<bar> < 2 ^ 53" by (simp only: of_int_less_iff)
  then show ?thesis unfolding n by (rule double_of_int)
qed

lemma round_half_even_nearest: "\<bar>of_int k - x\<bar> < 1 / 2 \<Longrightarrow> round_half_even x = k"
proof -
  assume a: "\<bar>of_int k - x\<bar> < 1 / 2"
  have f: "of_int \<lfloor>x\<rfloor> \<le> x" "x < of_int \<lfloor>x\<rfloor> + 1" by linarith+
  show ?thesis
  proof (cases "x - of_int \<lfloor>x\<rfloor> < 1 / 2")
    case True
    with a f have "of_int k - 1 < (of_int \<lfloor>x\<rfloor> :: rat)" "(of_int \<lfloor>x\<rfloor> :: rat) < of_int k + 1"
      by linarith+
    then have "of_int (k - 1) < (of_int \<lfloor>x\<rfloor> :: rat)" "(of_int \<lfloor>x\<rfloor> :: rat) < of_int (k + 1)"
      by simp_all
    then have "k - 1 < \<lfloor>x\<rfloor>" "\<lfloor>x\<rfloor> < k + 1" by (simp_all only: of_int_less_iff)
    then have "\<lfloor>x\<rfloor> = k" by simp
    with True show ?thesis by (simp add: round_half_even_def Let_def)
  next
    case False
    with a f have "of_int k - 2 < (of_int \<lfloor>x\<rfloor> :: rat)" "(of_int \<lfloor>x\<rfloor> :: rat) < of_int k"
      by linarith+
    then have "of_int (k - 2) < (of_int \<lfloor>x\<rfloor> :: rat)" "(of_int \<lfloor>x\<rfloor> :: rat) < of_int k"
      by simp_all
    then have "k - 2 < \<lfloor>x\<rfloor>" "\<lfloor>x\<rfloor> < k" by (simp_all only: of_int_less_iff)
    then have k: "\<lfloor>x\<rfloor> + 1 = k" by simp
    have "of_int \<lfloor>x\<rfloor> + 1 = (of_int k :: rat)" using k by (simp flip: of_int_add)
    with a have "x - of_int \<lfloor>x\<rfloor> \<noteq> 1 / 2" by linarith
    with False k show ?thesis by (simp add: round_half_even_def Let_def)
  qed
qed

lemma double_nearest:
  assumes "s \<le> 1074" "2 ^ 52 \<le> \<bar>x\<bar> * 2 ^ s" "\<bar>x\<bar> * 2 ^ s < 2 ^ 53"
    and "\<bar>of_int k - x * 2 ^ s\<bar> < 1 / 2"
  shows "double x = of_int k / 2 ^ s"
  by (simp only: double_scaled [OF assms(1-3)] round_half_even_nearest [OF assms(4)])


lemma double_eqI:
  assumes "s \<le> 1074" "2 ^ 52 \<le> \<bar>x\<bar> * 2 ^ s" "\<bar>x\<bar> * 2 ^ s < 2 ^ 53"
    and "r * 2 ^ s \<in> \<int>" "\<bar>r * 2 ^ s - x * 2 ^ s\<bar> < 1 / 2"
  shows "double x = r"
proof -
  from assms(4) obtain k where k: "r * 2 ^ s = of_int k" by (auto elim: Ints_cases)
  with assms(5) have "\<bar>of_int k - x * 2 ^ s\<bar> < 1 / 2" by simp
  from double_nearest [OF assms(1-3) this] have "double x = r * 2 ^ s / 2 ^ s" by (simp only: k)
  then show ?thesis by simp
qed

lemma round_half_even_tie: "round_half_even (of_int f + 1 / 2) = (if even f then f else f + 1)"
proof -
  have "\<lfloor>of_int f + 1 / 2 :: rat\<rfloor> = f" by (simp add: floor_unique)
  then show ?thesis by (simp add: round_half_even_def)
qed

lemma py_round2_whole: "x \<in> \<int> \<Longrightarrow> \<bar>x\<bar> < 2 ^ 53 \<Longrightarrow> py_round2 x = x"
proof -
  assume x: "x \<in> \<int>" and b: "\<bar>x\<bar> < 2 ^ 53"
  then obtain n where n: "x = of_int n" by (auto elim: Ints_cases)
  have "round_half_even (x * 100) = n * 100"
    using round_half_even_int [of "n * 100"] by (simp add: n)
  then have "py_round2 x = double x" by (simp add: py_round2_def n)
  with x b show ?thesis by (simp add: double_whole)
qed

lemmas mean_eval = mean_of_def py_sum_def float_div_def float_add_def double_whole py_round2_whole

subsection \<open>The per-currency dictionary and the URL loop\<close>

lemma fold_upd_lookup:
  "fold (\<lambda>r m. m(ccy r \<mapsto> r)) rs m0 c =
     (if filter (\<lambda>r. ccy r = c) rs = [] then m0 c
      else Some (last (filter (\<lambda>r. ccy r = c) rs)))"
  by (induction rs arbitrary: m0) auto

lemma dedup_lookup:
  "dedup rs c =
     (if filter (\<lambda>r. ccy r = c) rs = [] then None
      else Some (last (filter (\<lambda>r. ccy r = c) rs)))"
  by (simp add: dedup_def fold_upd_lookup)

lemma last_filter_ccy:
  "filter (\<lambda>r. ccy r = c) rs \<noteq> [] \<Longrightarrow> ccy (last (filter (\<lambda>r. ccy r = c) rs)) = c"
  using last_in_set [of "filter (\<lambda>r. ccy r = c) rs"] by simp

lemma last_filter_mem:
  "filter (\<lambda>r. ccy r = c) rs \<noteq> [] \<Longrightarrow> last (filter (\<lambda>r. ccy r = c) rs) \<in> set rs"
  using last_in_set [of "filter (\<lambda>r. ccy r = c) rs"] by simp

lemma filter_ccy_empty: "(filter (\<lambda>r. ccy r = c) rs = []) = (c \<notin> ccy ` set rs)"
  by (auto simp: filter_empty_conv)

lemma map_filter_dedup_ccys:
  "map ccy (List.map_filter (dedup rs) cs) = filter (\<lambda>c. c \<in> ccy ` set rs) cs"
  by (induction cs) (auto simp: dedup_lookup last_filter_ccy filter_ccy_empty)

lemma in_set_map_filter: "(y \<in> set (List.map_filter f xs)) = (\<exists>x \<in> set xs. f x = Some y)"
  by (induction xs) (auto split: option.splits)

lemma map_filter_dedup_pick:
  "distinct cs \<Longrightarrow>
   filter (\<lambda>r. ccy r = c) (List.map_filter (dedup rs) cs) =
     (if c \<in> set cs \<and> filter (\<lambda>r. ccy r = c) rs \<noteq> []
      then [last (filter (\<lambda>r. ccy r = c) rs)] else [])"
proof (induction cs)
  case Nil
  show ?case by simp
next
  case (Cons k cs)
  have notin: "k \<notin> set cs \<Longrightarrow> filter (\<lambda>r. ccy r = k) (List.map_filter (dedup rs) cs) = []"
  proof -
    assume k: "k \<notin> set cs"
    have "ccy ` set (List.map_filter (dedup rs) cs) \<subseteq> set cs"
      using map_filter_dedup_ccys [of rs cs] by (metis filter_is_subset image_set)
    with k show ?thesis by (auto simp: filter_empty_conv)
  qed
  show ?case
  proof (cases "filter (\<lambda>r. ccy r = k) rs = []")
    case True
    then show ?thesis using Cons by (auto simp: dedup_lookup)
  next
    case False
    then show ?thesis using Cons notin
      by (auto simp: dedup_lookup last_filter_ccy)
  qed
qed

lemma set_major_of: "set (major_of rs) \<subseteq> set rs"
  by (auto simp: major_of_def in_set_map_filter dedup_lookup last_filter_mem split: if_splits)

lemma try_urls_Some:
  "try_urls E scan name urls = Some br \<Longrightarrow>
   \<exists>url sp. url \<in> set urls \<and> fetch_html E url = Inr sp \<and> major_of (scan sp) \<noteq> [] \<and>
     br = \<lparr>bank = name, date = today E, rates = major_of (scan sp), source_url = url\<rparr>"
  by (induction urls) (auto simp: Let_def split: sum.splits if_splits)

lemma try_urls_all_raise:
  "\<forall>u \<in> set urls. isl (fetch_html E u) \<Longrightarrow> try_urls E scan name urls = None"
  by (induction urls) (auto split: sum.splits)

subsection \<open>Evaluating the sample rows\<close>

lemmas num_eval = num_py_def norm_text_def py_strip_def py_replace1_def py_isspace_def
  strict_match_def strict_signed_def strict_body_def digits1_def py_isdigit_def py_decimal_def
  loose_at_def py_float_def float_unsigned_def digits_val_def upt_conv_Cons double_whole

lemmas row_eval = first_row_def hamkor_row_def find_ccy_def row_nums_def py_upper_def
  py_upper_char_def CCYS_def MAJOR_def

lemma indexed_row_nums: "row_nums U indexed_row = [1, 12300, 12450]"
  by (simp add: indexed_row_def row_nums_def ustr_def num_eval)

lemma indexed_row_first: "first_row U indexed_row = Some \<lparr>ccy = ustr ''USD'', buy = Some 1, sell = Some 12300\<rparr>"
  by (simp add: indexed_row_def row_eval ustr_def num_eval)

lemma indexed_row_hamkor: "hamkor_row U indexed_row = Some \<lparr>ccy = ustr ''USD'', buy = Some 12300, sell = Some 12450\<rparr>"
  by (simp add: indexed_row_def row_eval ustr_def num_eval)

lemma usd_twice_first:
  "List.map_filter (first_row U) usd_twice =
     [\<lparr>ccy = ustr ''USD'', buy = Some 12300, sell = Some 12450\<rparr>,
      \<lparr>ccy = ustr ''USD'', buy = Some 12310, sell = Some 12460\<rparr>]"
  by (simp add: usd_twice_def row_eval ustr_def num_eval)

lemma agro_twice:
  "agrobank U (page_env (rows_page usd_twice)) =
     \<lparr>bank = ustr ''Agrobank'', date = ustr ''2025-01-01'',
      rates = [\<lparr>ccy = ustr ''USD'', buy = Some 12310, sell = Some 12460\<rparr>],
      source_url = ustr ''https://agrobank.uz/ru/person''\<rparr>"
  by (simp add: agrobank_def major_adapter_def agrobank_urls_def page_env_def no_net_def
      rows_page_def first_scan_def usd_twice_first major_of_def dedup_def MAJOR_def)
    (simp add: ustr_def)

subsection \<open>Kapitalbank's groups\<close>

lemma bag_append_lookup:
  "map_of (bag_append k r bag) k' =
     (if k' = k then Some ((case map_of bag k of None \<Rightarrow> [] | Some arr \<Rightarrow> arr) @ [r])
      else map_of bag k')"
  by (induction bag) auto

lemma bag_append_keys: "set (map fst (bag_append k r bag)) = insert k (set (map fst bag))"
proof (induction bag)
  case Nil
  show ?case by simp
next
  case (Cons p bag)
  obtain k' arr where p: "p = (k', arr)" by (cases p)
  show ?case using Cons.IH by (cases "k' = k") (auto simp: p)
qed

lemma bag_append_distinct:
  "distinct (map fst bag) \<Longrightarrow> distinct (map fst (bag_append k r bag))"
proof (induction bag)
  case Nil
  show ?case by simp
next
  case (Cons p bag)
  obtain k' arr where p: "p = (k', arr)" by (cases p)
  from Cons have d: "distinct (map fst (bag_append k r bag))" and nin: "k' \<notin> set (map fst bag)"
    by (auto simp: p)
  show ?case
  proof (cases "k' = k")
    case True
    with Cons.prems show ?thesis by (simp add: p)
  next
    case False
    have "k' \<notin> set (map fst (bag_append k r bag))"
      using nin False by (simp only: bag_append_keys) simp
    with d False show ?thesis by (simp add: p)
  qed
qed

text \<open>The bag built from a list of rates, started from any bag.\<close>

lemma bag_fold_lookup:
  "map_of (foldl (\<lambda>bag r. bag_append (ccy r) r bag) bag0 rs) k =
     (if map_of bag0 k = None \<and> filter (\<lambda>r. ccy r = k) rs = [] then None
      else Some ((case map_of bag0 k of None \<Rightarrow> [] | Some arr \<Rightarrow> arr) @
                 filter (\<lambda>r. ccy r = k) rs))"
proof (induction rs arbitrary: bag0)
  case Nil
  show ?case by (auto split: option.splits)
next
  case (Cons r rs)
  show ?case
    by (simp add: Cons.IH bag_append_lookup split: option.splits)
qed

lemma bag_fold_distinct:
  "distinct (map fst bag0) \<Longrightarrow>
   distinct (map fst (foldl (\<lambda>bag r. bag_append (ccy r) r bag) bag0 rs))"
  by (induction rs arbitrary: bag0) (auto simp: bag_append_distinct)

lemma kapital_bag_fold:
  "foldl (\<lambda>bag cells. case first_row U cells of None \<Rightarrow> bag
                        | Some r \<Rightarrow> bag_append (ccy r) r bag) bag0 rows =
   foldl (\<lambda>bag r. bag_append (ccy r) r bag) bag0 (List.map_filter (first_row U) rows)"
  by (induction rows arbitrary: bag0) (auto split: option.splits)

lemma kapital_bag_lookup:
  "map_of (kapital_bag U rows) k =
     (if filter (\<lambda>r. ccy r = k) (List.map_filter (first_row U) rows) = [] then None
      else Some (filter (\<lambda>r. ccy r = k) (List.map_filter (first_row U) rows)))"
  by (simp add: kapital_bag_def kapital_bag_fold bag_fold_lookup)

lemma kapital_bag_distinct: "distinct (map fst (kapital_bag U rows))"
  by (simp add: kapital_bag_def kapital_bag_fold bag_fold_distinct)

lemma first_row_Some:
  "find_ccy U MAJOR cells = Some c \<Longrightarrow> row_nums U cells = a # b # ns \<Longrightarrow>
   first_row U cells = Some \<lparr>ccy = c, buy = Some a, sell = Some b\<rparr>"
  by (auto simp: first_row_def find_ccy_def)

lemma hamkor_row_Some:
  "find_ccy U CCYS cells = Some c \<Longrightarrow> row_nums U cells = ns @ [a, b] \<Longrightarrow>
   hamkor_row U cells = Some \<lparr>ccy = c, buy = Some a, sell = Some b\<rparr>"
  by (auto simp: hamkor_row_def find_ccy_def nth_append)

subsection \<open>Which two numbers of a row are the buy and the sell price\<close>

text \<open>
  Claim C1, as the code has it. Take a row with a recognised currency cell in which at least
  two cells parse as numbers. The Hamkorbank adapter makes of it the rate whose buy and sell
  are the last two parsed numbers, in that order, and that rate is in the list its scan
  collects. The Kapitalbank, Agrobank, Ipak Yuli Bank and TBC Bank adapters make of it the rate
  whose buy and sell are the first two parsed numbers: \<open>first_row\<close> is the row step of
  all four, \<open>first_scan\<close> the list Agrobank, Ipak Yuli Bank and TBC Bank collect, and
  \<open>kapital_bag\<close> the groups Kapitalbank averages.
\<close>

theorem pair_positions:
  "(find_ccy U CCYS cells = Some c \<and> row_nums U cells = ns @ [a, b] \<longrightarrow>
      hamkor_row U cells = Some \<lparr>ccy = c, buy = Some a, sell = Some b\<rparr> \<and>
      (cells \<in> set (concat (tables sp)) \<longrightarrow>
         \<lparr>ccy = c, buy = Some a, sell = Some b\<rparr> \<in> set (hamkor_scan U sp))) \<and>
   (find_ccy U MAJOR cells = Some c \<and> row_nums U cells = a # b # ns \<longrightarrow>
      first_row U cells = Some \<lparr>ccy = c, buy = Some a, sell = Some b\<rparr> \<and>
      (cells \<in> set (trs sp) \<longrightarrow>
         \<lparr>ccy = c, buy = Some a, sell = Some b\<rparr> \<in> set (first_scan U sp) \<and>
         (\<exists>arr. map_of (kapital_bag U (trs sp)) c = Some arr \<and>
                \<lparr>ccy = c, buy = Some a, sell = Some b\<rparr> \<in> set arr)))"
proof (intro conjI impI)
  assume h: "find_ccy U CCYS cells = Some c \<and> row_nums U cells = ns @ [a, b]"
  then show r: "hamkor_row U cells = Some \<lparr>ccy = c, buy = Some a, sell = Some b\<rparr>"
    by (simp add: hamkor_row_Some)
  assume "cells \<in> set (concat (tables sp))"
  with r show "\<lparr>ccy = c, buy = Some a, sell = Some b\<rparr> \<in> set (hamkor_scan U sp)"
    unfolding hamkor_scan_def in_set_map_filter by blast
next
  assume h: "find_ccy U MAJOR cells = Some c \<and> row_nums U cells = a # b # ns"
  then show r: "first_row U cells = Some \<lparr>ccy = c, buy = Some a, sell = Some b\<rparr>"
    by (simp add: first_row_Some)
  assume m: "cells \<in> set (trs sp)"
  with r show s: "\<lparr>ccy = c, buy = Some a, sell = Some b\<rparr> \<in> set (first_scan U sp)"
    unfolding first_scan_def in_set_map_filter by blast
  then have "\<lparr>ccy = c, buy = Some a, sell = Some b\<rparr>
      \<in> set (filter (\<lambda>r. ccy r = c) (List.map_filter (first_row U) (trs sp)))"
    by (simp add: first_scan_def)
  moreover from this
  have "filter (\<lambda>r. ccy r = c) (List.map_filter (first_row U) (trs sp)) \<noteq> []"
    by (metis empty_iff empty_set)
  ultimately show "\<exists>arr. map_of (kapital_bag U (trs sp)) c = Some arr \<and>
                \<lparr>ccy = c, buy = Some a, sell = Some b\<rparr> \<in> set arr"
    by (simp add: kapital_bag_lookup)
qed

lemma indexed_row_ccy_major: "find_ccy U MAJOR indexed_row = Some (ustr ''USD'')"
  by (simp add: indexed_row_def row_eval ustr_def)

lemma indexed_row_ccy_all: "find_ccy U CCYS indexed_row = Some (ustr ''USD'')"
  by (simp add: indexed_row_def row_eval ustr_def)

theorem pair_positions_witness:
  "hamkor_row ascii_ucd indexed_row =
      Some \<lparr>ccy = ustr ''USD'', buy = Some 12300, sell = Some 12450\<rparr> \<and>
   \<lparr>ccy = ustr ''USD'', buy = Some 12300, sell = Some 12450\<rparr>
      \<in> set (hamkor_scan ascii_ucd (rows_page [indexed_row])) \<and>
   first_row ascii_ucd indexed_row =
      Some \<lparr>ccy = ustr ''USD'', buy = Some 1, sell = Some 12300\<rparr> \<and>
   \<lparr>ccy = ustr ''USD'', buy = Some 1, sell = Some 12300\<rparr>
      \<in> set (first_scan ascii_ucd (rows_page [indexed_row])) \<and>
   (\<exists>arr. map_of (kapital_bag ascii_ucd (trs (rows_page [indexed_row]))) (ustr ''USD'') = Some arr \<and>
      \<lparr>ccy = ustr ''USD'', buy = Some 1, sell = Some 12300\<rparr> \<in> set arr)"
  using pair_positions [of ascii_ucd indexed_row "ustr ''USD''" "[1]" 12300 12450
      "rows_page [indexed_row]"]
    pair_positions [of ascii_ucd indexed_row "ustr ''USD''" "[12450]" 1 12300
      "rows_page [indexed_row]"]
  by (simp add: indexed_row_ccy_major indexed_row_ccy_all indexed_row_nums rows_page_def)

text \<open>
  Kapitalbank does not take the last two numbers: on the row \<open>1, USD, 12300, 12450\<close> the
  parsed numbers are 1, 12300 and 12450, and the adapter returns buy 1 and sell 12300.
\<close>

lemma indexed_bag:
  "kapital_bag U [indexed_row] =
     [(ustr ''USD'', [\<lparr>ccy = ustr ''USD'', buy = Some 1, sell = Some 12300\<rparr>])]"
  by (simp add: kapital_bag_def indexed_row_first)

theorem kapitalbank_last_pair_counterexample:
  "row_nums ascii_ucd indexed_row = [1, 12300, 12450] \<and>
   kapitalbank ascii_ucd (page_env (rows_page [indexed_row])) =
     Inr \<lparr>bank = ustr ''Kapitalbank'', date = ustr ''2025-01-01'',
          rates = [\<lparr>ccy = ustr ''USD'', buy = Some 1, sell = Some 12300\<rparr>],
          source_url = ustr ''https://www.kapitalbank.uz/ru/services/exchange-rates-new/''\<rparr>"
  by (simp add: indexed_row_nums kapitalbank_def kapitalbank_urls_def page_env_def no_net_def
      rows_page_def indexed_bag mean_eval)

lemma major_adapter_all_raise:
  "\<forall>u \<in> set urls. isl (fetch_html E u) \<Longrightarrow>
   major_adapter E scan name urls =
     \<lparr>bank = name, date = today E, rates = [], source_url = hd urls\<rparr>"
  by (simp add: major_adapter_def try_urls_all_raise)

lemma kapital_loop_all_raise:
  "urls \<noteq> [] \<Longrightarrow> \<forall>u \<in> set urls. isl (fetch_html E u) \<Longrightarrow>
   kapital_loop U E lst urls = Inl (projl (fetch_html E (last urls)))"
proof (induction urls arbitrary: lst)
  case Nil
  then show ?case by simp
next
  case (Cons u urls)
  then obtain e where e: "fetch_html E u = Inl e" by (cases "fetch_html E u") auto
  show ?case
  proof (cases "urls = []")
    case True
    then show ?thesis by (simp add: e)
  next
    case False
    with Cons show ?thesis by (simp add: e)
  qed
qed

subsection \<open>When every URL fails\<close>

text \<open>
  Claim C2, as the code has it. If every candidate URL of an adapter raises, then Hamkorbank,
  Agrobank, Ipak Yuli Bank and TBC Bank return a \<open>BankRates\<close> with an empty rate list and
  their first candidate URL as source. Kapitalbank does not return: it keeps the exception in
  \<open>last\<close> and raises the one of its last URL after the loop.
\<close>

theorem all_urls_raise:
  "((\<forall>u \<in> set hamkorbank_urls. isl (fetch_html E u)) \<longrightarrow>
      hamkorbank U E = \<lparr>bank = ustr ''Hamkorbank'', date = today E, rates = [],
                        source_url = ustr ''https://hamkorbank.uz/ru/exchange-rate/''\<rparr>) \<and>
   ((\<forall>u \<in> set agrobank_urls. isl (fetch_html E u)) \<longrightarrow>
      agrobank U E = \<lparr>bank = ustr ''Agrobank'', date = today E, rates = [],
                      source_url = ustr ''https://agrobank.uz/ru/person''\<rparr>) \<and>
   ((\<forall>u \<in> set ipakyulibank_urls. isl (fetch_html E u)) \<longrightarrow>
      ipakyulibank U E = \<lparr>bank = ustr ''Ipak Yuli Bank'', date = today E, rates = [],
                          source_url = ustr ''https://ipakyulibank.uz/ru''\<rparr>) \<and>
   ((\<forall>u \<in> set tbc_bank_uz_urls. isl (fetch_html E u)) \<longrightarrow>
      tbc_bank_uz U E = \<lparr>bank = ustr ''TBC Bank Uzbekistan'', date = today E, rates = [],
                         source_url = ustr ''https://tbcbank.uz/ru''\<rparr>) \<and>
   ((\<forall>u \<in> set kapitalbank_urls. isl (fetch_html E u)) \<longrightarrow>
      kapitalbank U E =
        Inl (projl (fetch_html E (ustr ''https://www.kapitalbank.uz/services/exchange-rates-new/''))))"
proof (intro conjI impI)
  assume "\<forall>u \<in> set hamkorbank_urls. isl (fetch_html E u)"
  then show "hamkorbank U E = \<lparr>bank = ustr ''Hamkorbank'', date = today E, rates = [],
                        source_url = ustr ''https://hamkorbank.uz/ru/exchange-rate/''\<rparr>"
    by (simp add: hamkorbank_def major_adapter_all_raise) (simp add: hamkorbank_urls_def)
next
  assume "\<forall>u \<in> set agrobank_urls. isl (fetch_html E u)"
  then show "agrobank U E = \<lparr>bank = ustr ''Agrobank'', date = today E, rates = [],
                      source_url = ustr ''https://agrobank.uz/ru/person''\<rparr>"
    by (simp add: agrobank_def major_adapter_all_raise) (simp add: agrobank_urls_def)
next
  assume "\<forall>u \<in> set ipakyulibank_urls. isl (fetch_html E u)"
  then show "ipakyulibank U E = \<lparr>bank = ustr ''Ipak Yuli Bank'', date = today E, rates = [],
                          source_url = ustr ''https://ipakyulibank.uz/ru''\<rparr>"
    by (simp add: ipakyulibank_def major_adapter_all_raise) (simp add: ipakyulibank_urls_def)
next
  assume "\<forall>u \<in> set tbc_bank_uz_urls. isl (fetch_html E u)"
  then show "tbc_bank_uz U E = \<lparr>bank = ustr ''TBC Bank Uzbekistan'', date = today E, rates = [],
                         source_url = ustr ''https://tbcbank.uz/ru''\<rparr>"
    by (simp add: tbc_bank_uz_def major_adapter_all_raise) (simp add: tbc_bank_uz_urls_def)
next
  assume a: "\<forall>u \<in> set kapitalbank_urls. isl (fetch_html E u)"
  have ne: "kapitalbank_urls \<noteq> []" by (simp add: kapitalbank_urls_def)
  have l: "last kapitalbank_urls = ustr ''https://www.kapitalbank.uz/services/exchange-rates-new/''"
    by (simp add: kapitalbank_urls_def)
  show "kapitalbank U E =
        Inl (projl (fetch_html E (ustr ''https://www.kapitalbank.uz/services/exchange-rates-new/'')))"
    using kapital_loop_all_raise [OF ne a, of U None] by (simp add: kapitalbank_def l)
qed

theorem all_urls_raise_witness:
  "hamkorbank ascii_ucd no_net =
      \<lparr>bank = ustr ''Hamkorbank'', date = ustr ''2025-01-01'', rates = [],
       source_url = ustr ''https://hamkorbank.uz/ru/exchange-rate/''\<rparr> \<and>
   agrobank ascii_ucd no_net =
      \<lparr>bank = ustr ''Agrobank'', date = ustr ''2025-01-01'', rates = [],
       source_url = ustr ''https://agrobank.uz/ru/person''\<rparr> \<and>
   ipakyulibank ascii_ucd no_net =
      \<lparr>bank = ustr ''Ipak Yuli Bank'', date = ustr ''2025-01-01'', rates = [],
       source_url = ustr ''https://ipakyulibank.uz/ru''\<rparr> \<and>
   tbc_bank_uz ascii_ucd no_net =
      \<lparr>bank = ustr ''TBC Bank Uzbekistan'', date = ustr ''2025-01-01'', rates = [],
       source_url = ustr ''https://tbcbank.uz/ru''\<rparr> \<and>
   kapitalbank ascii_ucd no_net =
      Inl (FetchError (ustr ''https://www.kapitalbank.uz/services/exchange-rates-new/''))"
  using all_urls_raise [of no_net ascii_ucd] by (simp add: no_net_def)

text \<open>With no network Kapitalbank raises the error of its fourth URL.\<close>

theorem kapitalbank_raises_counterexample:
  "kapitalbank ascii_ucd no_net =
     Inl (FetchError (ustr ''https://www.kapitalbank.uz/services/exchange-rates-new/''))"
  by (simp add: kapitalbank_def kapitalbank_urls_def no_net_def)

subsection \<open>Which row of a currency is kept\<close>

lemma major_adapter_rates:
  "rates (major_adapter E scan name urls) \<noteq> [] \<Longrightarrow>
   \<exists>sp. fetch_html E (source_url (major_adapter E scan name urls)) = Inr sp \<and>
        rates (major_adapter E scan name urls) = major_of (scan sp)"
proof (cases "try_urls E scan name urls")
  case None
  assume "rates (major_adapter E scan name urls) \<noteq> []"
  with None show ?thesis by (simp add: major_adapter_def)
next
  case (Some br)
  from try_urls_Some [OF Some] show ?thesis
    by (auto simp: major_adapter_def Some)
qed

lemma distinct_MAJOR: "distinct MAJOR"
  by (simp add: MAJOR_def ustr_def)

lemma major_of_keeps_last: "keeps_last rs (major_of rs)"
  by (simp add: keeps_last_def major_of_def map_filter_dedup_pick distinct_MAJOR)

lemma major_adapter_keeps_last:
  "rates (major_adapter E scan name urls) \<noteq> [] \<Longrightarrow>
   \<exists>sp. fetch_html E (source_url (major_adapter E scan name urls)) = Inr sp \<and>
        keeps_last (scan sp) (rates (major_adapter E scan name urls))"
  using major_adapter_rates [of E scan name urls] major_of_keeps_last by auto

text \<open>
  Claim C3, as the code has it. When Agrobank, Ipak Yuli Bank or TBC Bank returns rates, they
  come from the page at the source URL, and for every major currency with qualifying rows on
  that page the rate kept is the one of the last such row in scan order: the dictionary
  comprehension lets a later row replace an earlier one. Hamkorbank does the same.
\<close>

theorem last_row_kept:
  "(rates (agrobank U E) \<noteq> [] \<longrightarrow>
      (\<exists>sp. fetch_html E (source_url (agrobank U E)) = Inr sp \<and>
            keeps_last (first_scan U sp) (rates (agrobank U E)))) \<and>
   (rates (ipakyulibank U E) \<noteq> [] \<longrightarrow>
      (\<exists>sp. fetch_html E (source_url (ipakyulibank U E)) = Inr sp \<and>
            keeps_last (first_scan U sp) (rates (ipakyulibank U E)))) \<and>
   (rates (tbc_bank_uz U E) \<noteq> [] \<longrightarrow>
      (\<exists>sp. fetch_html E (source_url (tbc_bank_uz U E)) = Inr sp \<and>
            keeps_last (first_scan U sp) (rates (tbc_bank_uz U E)))) \<and>
   (rates (hamkorbank U E) \<noteq> [] \<longrightarrow>
      (\<exists>sp. fetch_html E (source_url (hamkorbank U E)) = Inr sp \<and>
            keeps_last (hamkor_scan U sp) (rates (hamkorbank U E))))"
  unfolding agrobank_def ipakyulibank_def tbc_bank_uz_def hamkorbank_def
  by (intro conjI impI major_adapter_keeps_last)

lemma usd_twice_scan:
  "first_scan U (rows_page usd_twice) =
     [\<lparr>ccy = ustr ''USD'', buy = Some 12300, sell = Some 12450\<rparr>,
      \<lparr>ccy = ustr ''USD'', buy = Some 12310, sell = Some 12460\<rparr>]"
  by (simp add: first_scan_def rows_page_def usd_twice_first)

lemma page_env_fetch: "fetch_html (page_env sp) u = Inr sp"
  by (simp add: page_env_def)

theorem last_row_kept_witness:
  "rates (agrobank ascii_ucd (page_env (rows_page usd_twice))) \<noteq> [] \<and>
   filter (\<lambda>r. ccy r = ustr ''USD'') (first_scan ascii_ucd (rows_page usd_twice)) \<noteq> [] \<and>
   filter (\<lambda>r. ccy r = ustr ''USD'') (rates (agrobank ascii_ucd (page_env (rows_page usd_twice)))) =
     [last (filter (\<lambda>r. ccy r = ustr ''USD'') (first_scan ascii_ucd (rows_page usd_twice)))]"
proof -
  let ?E = "page_env (rows_page usd_twice)"
  have ne: "rates (agrobank ascii_ucd ?E) \<noteq> []" by (simp add: agro_twice)
  with last_row_kept [of ascii_ucd ?E]
  have k: "keeps_last (first_scan ascii_ucd (rows_page usd_twice)) (rates (agrobank ascii_ucd ?E))"
    by (simp add: page_env_fetch)
  have m: "ustr ''USD'' \<in> set MAJOR" by (simp add: MAJOR_def)
  have f: "filter (\<lambda>r. ccy r = ustr ''USD'') (first_scan ascii_ucd (rows_page usd_twice)) \<noteq> []"
    by (simp add: usd_twice_scan)
  from k m f show ?thesis using ne unfolding keeps_last_def by blast
qed

text \<open>
  Two USD rows, 12300/12450 and then 12310/12460: Agrobank returns the second, not the first.
\<close>

theorem agrobank_first_row_counterexample:
  "first_scan ascii_ucd (rows_page usd_twice) =
     [\<lparr>ccy = ustr ''USD'', buy = Some 12300, sell = Some 12450\<rparr>,
      \<lparr>ccy = ustr ''USD'', buy = Some 12310, sell = Some 12460\<rparr>] \<and>
   rates (agrobank ascii_ucd (page_env (rows_page usd_twice))) =
     [\<lparr>ccy = ustr ''USD'', buy = Some 12310, sell = Some 12460\<rparr>]"
  by (simp add: usd_twice_scan agro_twice)

subsection \<open>Kapitalbank's averages\<close>

lemma kapital_out_Inr:
  "kapital_out E bag = Inr out \<Longrightarrow>
   out = map (\<lambda>p. \<lparr>ccy = fst p,
                    buy = Some (py_round2 (float_div (py_sum E (List.map_filter (\<lambda>v. v) (map buy (snd p))))
                                           (double (of_nat (length (snd p)))))),
                    sell = Some (py_round2 (float_div (py_sum E (List.map_filter (\<lambda>v. v) (map sell (snd p))))
                                            (double (of_nat (length (snd p))))))\<rparr>) bag"
proof (induction bag arbitrary: out)
  case Nil
  then show ?case by simp
next
  case (Cons p bag)
  obtain c arr where p: "p = (c, arr)" by (cases p)
  from Cons.prems obtain out' where o: "kapital_out E bag = Inr out'"
    by (auto simp: p mean_of_def split: if_splits sum.splits)
  from Cons.prems show ?case
    using Cons.IH [OF o] by (auto simp: p o mean_of_def split: if_splits)
qed

lemma kapital_loop_Inr:
  "kapital_loop U E lst urls = Inr br \<Longrightarrow> rates br \<noteq> [] \<Longrightarrow>
   \<exists>url sp out. url \<in> set urls \<and> fetch_html E url = Inr sp \<and>
     kapital_out E (kapital_bag U (trs sp)) = Inr out \<and> out \<noteq> [] \<and>
     br = \<lparr>bank = ustr ''Kapitalbank'', date = today E, rates = sort_key ccy out,
           source_url = url\<rparr>"
proof (induction urls arbitrary: lst)
  case Nil
  then show ?case by (auto split: option.splits)
next
  case (Cons u urls)
  show ?case
  proof (cases "fetch_html E u")
    case (Inl e)
    with Cons.prems have "kapital_loop U E (Some e) urls = Inr br" by simp
    from Cons.IH [OF this Cons.prems(2)] show ?thesis by auto
  next
    case (Inr sp)
    show ?thesis
    proof (cases "kapital_out E (kapital_bag U (trs sp))")
      case (Inl e)
      with Cons.prems Inr have "kapital_loop U E (Some e) urls = Inr br" by simp
      from Cons.IH [OF this Cons.prems(2)] show ?thesis by auto
    next
      case out: (Inr out)
      show ?thesis
      proof (cases "out = []")
        case True
        with Cons.prems Inr out have "kapital_loop U E lst urls = Inr br" by simp
        from Cons.IH [OF this Cons.prems(2)] show ?thesis by auto
      next
        case False
        with Cons.prems Inr out show ?thesis by auto
      qed
    qed
  qed
qed

lemma filter_key_single:
  "distinct (map fst xs) \<Longrightarrow> map_of xs k = Some v \<Longrightarrow> filter (\<lambda>p. fst p = k) xs = [(k, v)]"
proof (induction xs)
  case Nil
  then show ?case by simp
next
  case (Cons p xs)
  obtain k' v' where p: "p = (k', v')" by (cases p)
  show ?case
  proof (cases "k' = k")
    case True
    with Cons.prems have "k \<notin> fst ` set xs" by (simp add: p)
    then have "filter (\<lambda>p. fst p = k) xs = []" by (auto simp: filter_empty_conv)
    with True Cons.prems show ?thesis by (simp add: p)
  next
    case False
    with Cons show ?thesis by (simp add: p)
  qed
qed

lemma filter_key_none: "map_of xs k = None \<Longrightarrow> filter (\<lambda>p. fst p = k) xs = []"
  by (auto simp: filter_empty_conv map_of_eq_None_iff)

lemma present_quotes:
  "List.map_filter (\<lambda>v. v) (map buy (map (quote c) pairs)) = map fst pairs"
  "List.map_filter (\<lambda>v. v) (map sell (map (quote c) pairs)) = map snd pairs"
  by (induction pairs) (simp_all add: quote_def List.map_filter_simps)

text \<open>Whole numbers of moderate size are added without any rounding.\<close>

lemma float_add_whole:
  assumes "a \<in> \<int>" "b \<in> \<int>" "\<bar>a\<bar> + \<bar>b\<bar> < 2 ^ 53"
  shows "float_add a b = a + b"
proof -
  have "a + b \<in> \<int>" using assms(1,2) by (rule Ints_add)
  moreover have "\<bar>a + b\<bar> < 2 ^ 53" using assms(3) by linarith
  ultimately show ?thesis by (simp add: float_add_def double_whole)
qed

lemma foldl_float_add_whole:
  "f \<in> \<int> \<Longrightarrow> \<forall>x \<in> set xs. x \<in> \<int> \<Longrightarrow> \<bar>f\<bar> + sum_list (map abs xs) < 2 ^ 53 \<Longrightarrow>
   foldl float_add f xs = f + sum_list xs"
proof (induction xs arbitrary: f)
  case Nil
  then show ?case by simp
next
  case (Cons x xs)
  have x: "x \<in> \<int>" using Cons.prems(2) by simp
  have nn: "0 \<le> sum_list (map abs xs)" by (rule sum_list_nonneg) auto
  have s: "float_add f x = f + x"
    using Cons.prems(1) x Cons.prems(3) nn by (intro float_add_whole) simp_all
  have "foldl float_add (f + x) xs = (f + x) + sum_list xs"
  proof (rule Cons.IH)
    show "f + x \<in> \<int>" using Cons.prems(1) x by (rule Ints_add)
    show "\<forall>x \<in> set xs. x \<in> \<int>" using Cons.prems(2) by simp
    show "\<bar>f + x\<bar> + sum_list (map abs xs) < 2 ^ 53" using Cons.prems(3) by simp
  qed
  then show ?case by (simp add: s)
qed

lemma neumaier_whole:
  "f \<in> \<int> \<Longrightarrow> \<forall>x \<in> set xs. x \<in> \<int> \<Longrightarrow> \<bar>f\<bar> + sum_list (map abs xs) < 2 ^ 53 \<Longrightarrow>
   neumaier f 0 xs = f + sum_list xs"
proof (induction xs arbitrary: f)
  case Nil
  then show ?case by simp
next
  case (Cons x xs)
  have x: "x \<in> \<int>" using Cons.prems(2) by simp
  have nn: "0 \<le> sum_list (map abs xs)" by (rule sum_list_nonneg) auto
  have fb: "\<bar>f\<bar> < 2 ^ 53" and xb: "\<bar>x\<bar> < 2 ^ 53" using Cons.prems(3) nn by simp_all
  have s: "float_add f x = f + x"
    using Cons.prems(1) x Cons.prems(3) nn by (intro float_add_whole) simp_all
  have "- x \<in> \<int>" "- f \<in> \<int>" using x Cons.prems(1) by simp_all
  then have d: "float_sub f (f + x) = - x" "float_sub x (f + x) = - f"
    using fb xb by (simp_all add: float_sub_def double_whole)
  have c: "float_add 0 (if \<bar>x\<bar> \<le> \<bar>f\<bar> then float_add (float_sub f (f + x)) x
                        else float_add (float_sub x (f + x)) f) = 0"
    by (simp add: d float_add_def double_0)
  have "neumaier (f + x) 0 xs = (f + x) + sum_list xs"
  proof (rule Cons.IH)
    show "f + x \<in> \<int>" using Cons.prems(1) x by (rule Ints_add)
    show "\<forall>x \<in> set xs. x \<in> \<int>" using Cons.prems(2) by simp
    show "\<bar>f + x\<bar> + sum_list (map abs xs) < 2 ^ 53" using Cons.prems(3) by simp
  qed
  then show ?case by (simp add: s c Let_def)
qed

lemma py_sum_whole:
  assumes "\<forall>x \<in> set xs. x \<in> \<int>" "sum_list (map abs xs) < 2 ^ 53"
  shows "py_sum E xs = sum_list xs"
proof (cases xs)
  case Nil
  then show ?thesis by (simp add: py_sum_def)
next
  case (Cons v ws)
  have v: "v \<in> \<int>" and ws: "\<forall>x \<in> set ws. x \<in> \<int>" using assms(1) Cons by simp_all
  have b: "\<bar>v\<bar> + sum_list (map abs ws) < 2 ^ 53" using assms(2) Cons by simp
  have nn: "0 \<le> sum_list (map abs ws)" by (rule sum_list_nonneg) auto
  have "\<bar>v\<bar> < 2 ^ 53" using b nn by simp
  then have s: "float_add 0 v = v" using v by (simp add: float_add_def double_whole)
  show ?thesis
    using foldl_float_add_whole [OF v ws b] neumaier_whole [OF v ws b]
    by (simp add: py_sum_def Cons s)
qed

lemma float_mean_whole:
  assumes "xs \<noteq> []" "length xs < 2 ^ 53" "\<forall>x \<in> set xs. x \<in> \<int>" "sum_list (map abs xs) < 2 ^ 53"
  shows "float_mean E xs = double (mean xs)"
proof -
  have "(of_nat (length xs) :: rat) < of_nat (2 ^ 53)" using assms(2) by (simp only: of_nat_less_iff)
  then have "\<bar>of_nat (length xs) :: rat\<bar> < 2 ^ 53" by simp
  then have "double (of_nat (length xs)) = of_nat (length xs)" by (simp add: double_whole)
  then show ?thesis
    by (simp add: float_mean_def float_div_def mean_def py_sum_whole [OF assms(3,4)])
qed

text \<open>What Kapitalbank returns for a currency, from the rates its scan collects.\<close>

lemma kapital_rates_of:
  assumes ret: "kapitalbank U E = Inr br" and ne: "rates br \<noteq> []"
  shows "\<exists>sp. fetch_html E (source_url br) = Inr sp \<and>
     (\<forall>c. filter (\<lambda>r. ccy r = c) (rates br) =
        (let rs = filter (\<lambda>r. ccy r = c) (first_scan U sp)
         in if rs = [] then []
            else [\<lparr>ccy = c,
                   buy = Some (py_round2 (float_div (py_sum E (List.map_filter (\<lambda>v. v) (map buy rs)))
                                          (double (of_nat (length rs))))),
                   sell = Some (py_round2 (float_div (py_sum E (List.map_filter (\<lambda>v. v) (map sell rs)))
                                          (double (of_nat (length rs)))))\<rparr>]))"
proof -
  from kapital_loop_Inr [OF ret [unfolded kapitalbank_def] ne]
  obtain url sp out where f: "fetch_html E url = Inr sp"
    and o: "kapital_out E (kapital_bag U (trs sp)) = Inr out"
    and br: "br = \<lparr>bank = ustr ''Kapitalbank'', date = today E, rates = sort_key ccy out,
                   source_url = url\<rparr>"
    by blast
  let ?bag = "kapital_bag U (trs sp)"
  let ?g = "\<lambda>p. \<lparr>ccy = fst p,
                    buy = Some (py_round2 (float_div (py_sum E (List.map_filter (\<lambda>v. v) (map buy (snd p))))
                                           (double (of_nat (length (snd p)))))),
                    sell = Some (py_round2 (float_div (py_sum E (List.map_filter (\<lambda>v. v) (map sell (snd p))))
                                            (double (of_nat (length (snd p))))))\<rparr>"
  have out: "out = map ?g ?bag" by (rule kapital_out_Inr [OF o])
  have "filter (\<lambda>r. ccy r = c) (rates br) =
        (let rs = filter (\<lambda>r. ccy r = c) (first_scan U sp)
         in if rs = [] then [] else [?g (c, rs)])" for c
  proof -
    have 1: "filter (\<lambda>r. ccy r = c) (rates br) =
             sort_key ccy (map ?g (filter (\<lambda>p. fst p = c) ?bag))"
      by (simp add: br out filter_sort filter_map o_def)
    show ?thesis
    proof (cases "filter (\<lambda>r. ccy r = c) (first_scan U sp) = []")
      case True
      then have "map_of ?bag c = None" by (simp add: kapital_bag_lookup first_scan_def)
      then have "filter (\<lambda>p. fst p = c) ?bag = []" by (rule filter_key_none)
      with 1 True show ?thesis by simp
    next
      case False
      then have "map_of ?bag c = Some (filter (\<lambda>r. ccy r = c) (first_scan U sp))"
        by (simp add: kapital_bag_lookup first_scan_def)
      from filter_key_single [OF kapital_bag_distinct this]
      show ?thesis using 1 False by (simp add: Let_def)
    qed
  qed
  moreover have "source_url br = url" by (simp add: br)
  ultimately show ?thesis using f by (auto simp: Let_def)
qed

text \<open>
  Claim C5. When Kapitalbank returns rates, they come from the page at the source URL. For a
  currency whose qualifying rows on that page carry the buy and sell prices \<open>pairs\<close>, the
  returned list holds exactly one rate of that currency; its buy is the mean of the rows' buy
  prices and its sell the mean of their sell prices, each rounded to two decimals. Mean and
  rounding are those of the interpreter's floats: \<open>sum(xs) / len(xs)\<close>, and \<open>round(x, 2)\<close>,
  which is the float nearest to a whole number of hundredths at most half a hundredth away
  from \<open>x\<close>. For whole prices that add up to less than \<open>2 ^ 53\<close> the float mean is the
  arithmetic mean, rounded to a float once. The two EUR rows 100/105 and 102/107 give the
  one rate EUR 101/106.
\<close>

theorem kapital_average:
  "(kapitalbank U E = Inr br \<and> rates br \<noteq> [] \<longrightarrow>
      (\<exists>sp. fetch_html E (source_url br) = Inr sp \<and>
         (\<forall>c pairs. pairs \<noteq> [] \<and>
              filter (\<lambda>r. ccy r = c) (first_scan U sp) = map (quote c) pairs \<longrightarrow>
            filter (\<lambda>r. ccy r = c) (rates br) =
              [quote c (py_round2 (float_mean E (map fst pairs)),
                        py_round2 (float_mean E (map snd pairs)))]))) \<and>
   (\<forall>x. \<exists>k. py_round2 x = double (of_int k / 100) \<and> \<bar>of_int k / 100 - x\<bar> \<le> 1 / 200) \<and>
   (\<forall>xs. xs \<noteq> [] \<and> length xs < 2 ^ 53 \<and> (\<forall>x \<in> set xs. x \<in> \<int>) \<and>
         sum_list (map abs xs) < 2 ^ 53 \<longrightarrow>
      float_mean E xs = double (mean xs))"
proof (intro conjI impI allI)
  assume a: "kapitalbank U E = Inr br \<and> rates br \<noteq> []"
  from kapital_rates_of [of U E br] a obtain sp where f: "fetch_html E (source_url br) = Inr sp"
    and r: "\<And>c. filter (\<lambda>r. ccy r = c) (rates br) =
        (let rs = filter (\<lambda>r. ccy r = c) (first_scan U sp)
         in if rs = [] then []
            else [\<lparr>ccy = c,
                   buy = Some (py_round2 (float_div (py_sum E (List.map_filter (\<lambda>v. v) (map buy rs)))
                                          (double (of_nat (length rs))))),
                   sell = Some (py_round2 (float_div (py_sum E (List.map_filter (\<lambda>v. v) (map sell rs)))
                                          (double (of_nat (length rs)))))\<rparr>])"
    by blast
  have "filter (\<lambda>r. ccy r = c) (rates br) =
          [quote c (py_round2 (float_mean E (map fst pairs)),
                    py_round2 (float_mean E (map snd pairs)))]"
    if "pairs \<noteq> [] \<and> filter (\<lambda>r. ccy r = c) (first_scan U sp) = map (quote c) pairs"
    for c pairs
    using that by (simp add: r present_quotes float_mean_def del: map_map) (simp add: quote_def)
  with f show "\<exists>sp. fetch_html E (source_url br) = Inr sp \<and>
         (\<forall>c pairs. pairs \<noteq> [] \<and>
              filter (\<lambda>r. ccy r = c) (first_scan U sp) = map (quote c) pairs \<longrightarrow>
            filter (\<lambda>r. ccy r = c) (rates br) =
              [quote c (py_round2 (float_mean E (map fst pairs)),
                        py_round2 (float_mean E (map snd pairs)))])"
    by blast
next
  fix x
  have "\<bar>of_int (round_half_even (x * 100)) - x * 100\<bar> \<le> 1 / 2"
    by (rule round_half_even_near)
  then have "\<bar>of_int (round_half_even (x * 100)) / 100 - x\<bar> * 100 \<le> 1 / 2"
    by (simp add: abs_le_iff field_simps)
  then have "\<bar>of_int (round_half_even (x * 100)) / 100 - x\<bar> \<le> 1 / 200" by simp
  then show "\<exists>k. py_round2 x = double (of_int k / 100) \<and> \<bar>of_int k / 100 - x\<bar> \<le> 1 / 200"
    unfolding py_round2_def by blast
next
  fix xs :: "rat list"
  assume "xs \<noteq> [] \<and> length xs < 2 ^ 53 \<and> (\<forall>x \<in> set xs. x \<in> \<int>) \<and>
         sum_list (map abs xs) < 2 ^ 53"
  then show "float_mean E xs = double (mean xs)" by (intro float_mean_whole) simp_all
qed

lemma eur_twice_scan:
  "first_scan U (rows_page eur_twice) =
     [quote (ustr ''EUR'') (100, 105), quote (ustr ''EUR'') (102, 107)]"
  by (simp add: first_scan_def rows_page_def eur_twice_def row_eval ustr_def num_eval quote_def)

lemma eur_rows_first:
  "first_row U [ustr ''EUR'', ustr ''100'', ustr ''105''] = Some (quote (ustr ''EUR'') (100, 105))"
  "first_row U [ustr ''EUR'', ustr ''102'', ustr ''107''] = Some (quote (ustr ''EUR'') (102, 107))"
  by (simp_all add: row_eval ustr_def num_eval quote_def)

lemma eur_twice_bag:
  "kapital_bag U eur_twice =
     [(ustr ''EUR'', [quote (ustr ''EUR'') (100, 105), quote (ustr ''EUR'') (102, 107)])]"
  by (simp add: kapital_bag_def eur_twice_def eur_rows_first) (simp add: quote_def)

lemma kapital_eur_twice:
  "kapitalbank U (page_env (rows_page eur_twice)) =
     Inr \<lparr>bank = ustr ''Kapitalbank'', date = ustr ''2025-01-01'',
          rates = [\<lparr>ccy = ustr ''EUR'', buy = Some 101, sell = Some 106\<rparr>],
          source_url = ustr ''https://www.kapitalbank.uz/ru/services/exchange-rates-new/''\<rparr>"
  by (simp add: kapitalbank_def kapitalbank_urls_def page_env_def no_net_def
      rows_page_def eur_twice_bag quote_def mean_eval)

theorem kapital_average_witness:
  "kapitalbank ascii_ucd (page_env (rows_page eur_twice)) =
     Inr \<lparr>bank = ustr ''Kapitalbank'', date = ustr ''2025-01-01'',
          rates = [\<lparr>ccy = ustr ''EUR'', buy = Some 101, sell = Some 106\<rparr>],
          source_url = ustr ''https://www.kapitalbank.uz/ru/services/exchange-rates-new/''\<rparr> \<and>
   filter (\<lambda>r. ccy r = ustr ''EUR'') (first_scan ascii_ucd (rows_page eur_twice)) =
     map (quote (ustr ''EUR'')) [(100, 105), (102, 107)] \<and>
   filter (\<lambda>r. ccy r = ustr ''EUR'')
       [\<lparr>ccy = ustr ''EUR'', buy = Some 101, sell = Some 106\<rparr>] =
     [quote (ustr ''EUR'') (py_round2 (float_mean (page_env (rows_page eur_twice)) [100, 102]),
                            py_round2 (float_mean (page_env (rows_page eur_twice)) [105, 107]))] \<and>
   float_mean (page_env (rows_page eur_twice)) [100, 102] = double (mean [100, 102]) \<and>
   float_mean (page_env (rows_page eur_twice)) [105, 107] = double (mean [105, 107]) \<and>
   py_round2 (double (mean [100, 102])) = 101 \<and> py_round2 (double (mean [105, 107])) = 106"
proof -
  let ?E = "page_env (rows_page eur_twice)"
  let ?br = "\<lparr>bank = ustr ''Kapitalbank'', date = ustr ''2025-01-01'',
          rates = [\<lparr>ccy = ustr ''EUR'', buy = Some 101, sell = Some 106\<rparr>],
          source_url = ustr ''https://www.kapitalbank.uz/ru/services/exchange-rates-new/''\<rparr>"
  note avg = kapital_average [of ascii_ucd ?E ?br]
  have k: "kapitalbank ascii_ucd ?E = Inr ?br" by (rule kapital_eur_twice)
  have s: "filter (\<lambda>r. ccy r = ustr ''EUR'') (first_scan ascii_ucd (rows_page eur_twice)) =
     map (quote (ustr ''EUR'')) [(100, 105), (102, 107)]"
    by (simp add: eur_twice_scan quote_def)
  from avg k
  have "\<forall>c pairs. pairs \<noteq> [] \<and>
              filter (\<lambda>r. ccy r = c) (first_scan ascii_ucd (rows_page eur_twice)) = map (quote c) pairs \<longrightarrow>
            filter (\<lambda>r. ccy r = c) (rates ?br) =
              [quote c (py_round2 (float_mean ?E (map fst pairs)),
                        py_round2 (float_mean ?E (map snd pairs)))]"
    by (simp add: page_env_fetch)
  from this [rule_format, of "[(100, 105), (102, 107)]" "ustr ''EUR''"] s
  have r: "filter (\<lambda>r. ccy r = ustr ''EUR'')
       [\<lparr>ccy = ustr ''EUR'', buy = Some 101, sell = Some 106\<rparr>] =
     [quote (ustr ''EUR'') (py_round2 (float_mean ?E [100, 102]),
                            py_round2 (float_mean ?E [105, 107]))]"
    by (simp add: quote_def)
  from avg have w: "\<forall>xs. xs \<noteq> [] \<and> length xs < 2 ^ 53 \<and> (\<forall>x \<in> set xs. x \<in> \<int>) \<and>
         sum_list (map abs xs) < 2 ^ 53 \<longrightarrow> float_mean ?E xs = double (mean xs)"
    by blast
  have m1: "float_mean ?E [100, 102] = double (mean [100, 102])"
    by (rule w [rule_format]) simp
  have m2: "float_mean ?E [105, 107] = double (mean [105, 107])"
    by (rule w [rule_format]) simp
  have v: "py_round2 (double (mean [100, 102])) = 101" "py_round2 (double (mean [105, 107])) = 106"
    by (simp_all add: mean_def double_whole py_round2_whole)
  from k s r m1 m2 v show ?thesis by blast
qed

text \<open>
  Where the binary value decides the second decimal. The float nearest to 2.675 lies below
  it, so a single row with that price is rounded to 2.67, and 1.005 likewise to 1; the mean
  of the floats for 12450.20 and 12450.25 lies above 12450.225, so it is rounded to
  12450.23.
\<close>

lemma double_samples:
  "double (107 / 40) = 3011782250804019 / 1125899906842624"
  "double (3011782250804019 / 1125899906842624) = 3011782250804019 / 1125899906842624"
  "double (62251 / 5) = 3422284917034189 / 274877906944"
  "double (3422284917034189 / 274877906944) = 3422284917034189 / 274877906944"
  "double (49801 / 4) = 49801 / 4"
  "double (6844583577963725 / 274877906944) = 6844583577963725 / 274877906944"
  "double (6844583577963725 / 549755813888) = 6844583577963725 / 549755813888"
  "double (- (3422284917034189 / 274877906944)) = - (3422284917034189 / 274877906944)"
  "double (201 / 200) = 1131529406376837 / 1125899906842624"
  "double (1131529406376837 / 1125899906842624) = 1131529406376837 / 1125899906842624"
proof -
  show "double (- (3422284917034189 / 274877906944)) = - (3422284917034189 / 274877906944)"
    by (rule double_eqI [where s = 39]) simp_all
  show "double (201 / 200) = 1131529406376837 / 1125899906842624"
    by (rule double_eqI [where s = 52]) simp_all
  show "double (1131529406376837 / 1125899906842624) = 1131529406376837 / 1125899906842624"
    by (rule double_eqI [where s = 52]) simp_all
  show "double (107 / 40) = 3011782250804019 / 1125899906842624"
    by (rule double_eqI [where s = 51]) simp_all
  show "double (3011782250804019 / 1125899906842624) = 3011782250804019 / 1125899906842624"
    by (rule double_eqI [where s = 51]) simp_all
  show "double (62251 / 5) = 3422284917034189 / 274877906944"
    by (rule double_eqI [where s = 39]) simp_all
  show "double (3422284917034189 / 274877906944) = 3422284917034189 / 274877906944"
    by (rule double_eqI [where s = 39]) simp_all
  show "double (49801 / 4) = 49801 / 4"
    by (rule double_eqI [where s = 39]) simp_all
  show "double (6844583577963725 / 274877906944) = 6844583577963725 / 274877906944"
    by (rule double_eqI [where s = 38]) simp_all
  show "double (6844583577963725 / 549755813888) = 6844583577963725 / 549755813888"
    by (rule double_eqI [where s = 39]) simp_all
qed

lemma round_samples:
  "round_half_even (75294556270100475 / 281474976710656) = 267"
  "round_half_even (171114589449093125 / 137438953472) = 1245023"
  "round_half_even (28288235159420925 / 281474976710656) = 100"
proof -
  show "round_half_even (28288235159420925 / 281474976710656) = 100"
    by (rule round_half_even_nearest) simp
  show "round_half_even (75294556270100475 / 281474976710656) = 267"
    by (rule round_half_even_nearest) simp
  show "round_half_even (171114589449093125 / 137438953472) = 1245023"
    by (rule round_half_even_nearest) simp
qed

lemma binary_rounding:
  "py_round2 (float_mean E [double (2675 / 1000)]) = double (267 / 100)"
  "py_round2 (float_mean E [double (124502 / 10), double (1245025 / 100)]) =
     double (1245023 / 100)"
  by (simp_all add: float_mean_def py_sum_def float_div_def float_add_def float_sub_def
      py_round2_def double_samples round_samples double_whole Let_def)

lemma half_cent_first:
  "first_row U half_cent_row =
     Some (quote (ustr ''USD'')
       (3011782250804019 / 1125899906842624, 1131529406376837 / 1125899906842624))"
  by (simp add: half_cent_row_def row_eval ustr_def num_eval quote_def double_samples)

lemma kapital_half_cent:
  "kapitalbank U (page_env (rows_page [half_cent_row])) =
     Inr \<lparr>bank = ustr ''Kapitalbank'', date = ustr ''2025-01-01'',
          rates = [\<lparr>ccy = ustr ''USD'', buy = Some (double (267 / 100)), sell = Some 1\<rparr>],
          source_url = ustr ''https://www.kapitalbank.uz/ru/services/exchange-rates-new/''\<rparr>"
  by (simp add: kapitalbank_def kapitalbank_urls_def page_env_def no_net_def rows_page_def
      kapital_bag_def half_cent_first quote_def mean_of_def py_sum_def float_div_def
      float_add_def py_round2_def double_samples round_samples double_whole)

text \<open>The two EUR rows when \<open>sum\<close> carries its correction term.\<close>

lemma kapital_eur_twice_compensated:
  "kapitalbank U ((page_env (rows_page eur_twice))\<lparr>compensated := True\<rparr>) =
     Inr \<lparr>bank = ustr ''Kapitalbank'', date = ustr ''2025-01-01'',
          rates = [\<lparr>ccy = ustr ''EUR'', buy = Some 101, sell = Some 106\<rparr>],
          source_url = ustr ''https://www.kapitalbank.uz/ru/services/exchange-rates-new/''\<rparr>"
  by (simp add: kapitalbank_def kapitalbank_urls_def page_env_def no_net_def
      rows_page_def eur_twice_bag quote_def mean_eval float_sub_def Let_def)

text \<open>Rounding the exact numbers 2.675 and 12450.225 gives 2.68 and 12450.22.\<close>

lemma exact_rounding:
  "round_half_even (2675 / 1000 * 100) = 268"
  "round_half_even (12450225 / 1000 * 100) = 1245022"
  using round_half_even_tie [of 267] round_half_even_tie [of 1245022] by simp_all

subsection \<open>Which currencies are returned, and in which order\<close>

lemma major_adapter_majors: "majors_of_scan E scan (major_adapter E scan name urls)"
proof (cases "rates (major_adapter E scan name urls) = []")
  case True
  then show ?thesis
    unfolding majors_of_scan_def by (intro exI [of _ "[]"]) simp
next
  case False
  from major_adapter_rates [OF False] show ?thesis
    unfolding majors_of_scan_def major_of_def by (auto simp: map_filter_dedup_ccys)
qed

lemma distinct_map_by_filter:
  "(\<And>c. length (filter (\<lambda>r. f r = c) xs) \<le> 1) \<Longrightarrow> distinct (map f xs)"
proof (induction xs)
  case Nil
  show ?case by simp
next
  case (Cons x xs)
  have "length (filter (\<lambda>r. f r = c) xs) \<le> 1" for c
    using Cons.prems [of c] by (simp split: if_splits)
  then have d: "distinct (map f xs)" by (rule Cons.IH)
  from Cons.prems [of "f x"] have "filter (\<lambda>r. f r = f x) xs = []" by simp
  then have "f x \<notin> f ` set xs" by (auto simp: filter_empty_conv)
  with d show ?case by simp
qed

lemma kapital_sorted:
  "kapitalbank U E = Inr br \<Longrightarrow> sorted (map ccy (rates br))"
proof (cases "rates br = []")
  case True
  then show ?thesis by simp
next
  case False
  assume "kapitalbank U E = Inr br"
  from kapital_loop_Inr [OF this [unfolded kapitalbank_def] False]
  show ?thesis by auto
qed

lemma kapital_found:
  assumes "kapitalbank U E = Inr br"
  shows "distinct (map ccy (rates br)) \<and>
     (rates br \<noteq> [] \<longrightarrow>
        (\<exists>sp. fetch_html E (source_url br) = Inr sp \<and>
              set (map ccy (rates br)) = ccy ` set (first_scan U sp)))"
proof (cases "rates br = []")
  case True
  then show ?thesis by simp
next
  case False
  from kapital_rates_of [OF assms False]
  obtain sp where f: "fetch_html E (source_url br) = Inr sp"
    and r: "\<And>c. filter (\<lambda>r. ccy r = c) (rates br) =
        (let rs = filter (\<lambda>r. ccy r = c) (first_scan U sp)
         in if rs = [] then []
            else [\<lparr>ccy = c,
                   buy = Some (py_round2 (float_div (py_sum E (List.map_filter (\<lambda>v. v) (map buy rs)))
                                          (double (of_nat (length rs))))),
                   sell = Some (py_round2 (float_div (py_sum E (List.map_filter (\<lambda>v. v) (map sell rs)))
                                          (double (of_nat (length rs)))))\<rparr>])"
    by blast
  have "length (filter (\<lambda>r. ccy r = c) (rates br)) \<le> 1" for c
    by (simp add: r Let_def)
  then have d: "distinct (map ccy (rates br))" by (rule distinct_map_by_filter)
  have "(c \<in> ccy ` set (rates br)) = (c \<in> ccy ` set (first_scan U sp))" for c
  proof -
    have "(c \<in> ccy ` set (rates br)) = (filter (\<lambda>r. ccy r = c) (rates br) \<noteq> [])"
      by (simp add: filter_ccy_empty)
    also have "\<dots> = (filter (\<lambda>r. ccy r = c) (first_scan U sp) \<noteq> [])"
      by (simp add: r Let_def)
    also have "\<dots> = (c \<in> ccy ` set (first_scan U sp))"
      by (simp add: filter_ccy_empty)
    finally show ?thesis .
  qed
  then have "set (map ccy (rates br)) = ccy ` set (first_scan U sp)" by auto
  with d f show ?thesis by blast
qed

text \<open>
  Claim C6. The rate list Hamkorbank, Agrobank, Ipak Yuli Bank or TBC Bank returns holds no
  currency but USD, EUR and RUB, in this order, and holds each of them exactly when the
  scan of the page found it; whatever else the scan found (Hamkorbank scans for all nine
  codes) is dropped. What Kapitalbank returns is sorted by currency code, has every code
  once, and has exactly the codes its scan found.
\<close>

theorem output_currencies:
  "MAJOR = [ustr ''USD'', ustr ''EUR'', ustr ''RUB''] \<and>
   majors_of_scan E (hamkor_scan U) (hamkorbank U E) \<and>
   majors_of_scan E (first_scan U) (agrobank U E) \<and>
   majors_of_scan E (first_scan U) (ipakyulibank U E) \<and>
   majors_of_scan E (first_scan U) (tbc_bank_uz U E) \<and>
   (kapitalbank U E = Inr br \<longrightarrow>
      sorted (map ccy (rates br)) \<and> distinct (map ccy (rates br)) \<and>
      (rates br \<noteq> [] \<longrightarrow>
         (\<exists>sp. fetch_html E (source_url br) = Inr sp \<and>
               set (map ccy (rates br)) = ccy ` set (first_scan U sp))))"
  unfolding hamkorbank_def agrobank_def ipakyulibank_def tbc_bank_uz_def
  using kapital_sorted [of U E br] kapital_found [of U E br]
  by (simp add: major_adapter_majors) (simp add: MAJOR_def)

lemma mixed_rows_hamkor:
  "hamkor_scan U (rows_page mixed_rows) =
     [quote (ustr ''USD'') (12300, 12450), quote (ustr ''GBP'') (15000, 15500),
      quote (ustr ''RUB'') (150, 160), quote (ustr ''EUR'') (13000, 13200)]"
  by (simp add: hamkor_scan_def rows_page_def mixed_rows_def row_eval ustr_def num_eval quote_def)

lemma mixed_rows_first:
  "first_scan U (rows_page mixed_rows) =
     [quote (ustr ''USD'') (12300, 12450),
      quote (ustr ''RUB'') (150, 160), quote (ustr ''EUR'') (13000, 13200)]"
  by (simp add: first_scan_def rows_page_def mixed_rows_def row_eval ustr_def num_eval quote_def)

lemma hamkor_mixed:
  "hamkorbank U (page_env (rows_page mixed_rows)) =
     \<lparr>bank = ustr ''Hamkorbank'', date = ustr ''2025-01-01'',
      rates = [quote (ustr ''USD'') (12300, 12450), quote (ustr ''EUR'') (13000, 13200),
               quote (ustr ''RUB'') (150, 160)],
      source_url = ustr ''https://hamkorbank.uz/ru/exchange-rate/''\<rparr>"
proof -
  have "major_of [quote (ustr ''USD'') (12300, 12450), quote (ustr ''GBP'') (15000, 15500),
      quote (ustr ''RUB'') (150, 160), quote (ustr ''EUR'') (13000, 13200)] =
      [quote (ustr ''USD'') (12300, 12450), quote (ustr ''EUR'') (13000, 13200),
       quote (ustr ''RUB'') (150, 160)]"
    by (simp add: major_of_def dedup_def MAJOR_def quote_def ustr_def)
  then show ?thesis
    by (simp add: hamkorbank_def major_adapter_def hamkorbank_urls_def page_env_fetch
        mixed_rows_hamkor Let_def)
      (simp add: page_env_def no_net_def)
qed

lemma mixed_rows_bag:
  "kapital_bag U (trs (rows_page mixed_rows)) =
     [(ustr ''USD'', [quote (ustr ''USD'') (12300, 12450)]),
      (ustr ''RUB'', [quote (ustr ''RUB'') (150, 160)]),
      (ustr ''EUR'', [quote (ustr ''EUR'') (13000, 13200)])]"
proof -
  have "kapital_bag U (trs (rows_page mixed_rows)) =
        foldl (\<lambda>bag r. bag_append (ccy r) r bag) [] (first_scan U (rows_page mixed_rows))"
    by (simp add: kapital_bag_def kapital_bag_fold first_scan_def)
  then show ?thesis by (simp add: mixed_rows_first quote_def ustr_def)
qed

lemma kapital_mixed:
  "kapitalbank U (page_env (rows_page mixed_rows)) =
     Inr \<lparr>bank = ustr ''Kapitalbank'', date = ustr ''2025-01-01'',
          rates = [quote (ustr ''EUR'') (13000, 13200), quote (ustr ''RUB'') (150, 160),
                   quote (ustr ''USD'') (12300, 12450)],
          source_url = ustr ''https://www.kapitalbank.uz/ru/services/exchange-rates-new/''\<rparr>"
proof -
  have k: "kapital_out E (kapital_bag U (trs (rows_page mixed_rows))) =
      Inr [quote (ustr ''USD'') (12300, 12450), quote (ustr ''RUB'') (150, 160),
           quote (ustr ''EUR'') (13000, 13200)]" for E
    by (simp add: mixed_rows_bag quote_def mean_eval)
  have "sort_key ccy [quote (ustr ''USD'') (12300, 12450), quote (ustr ''RUB'') (150, 160),
           quote (ustr ''EUR'') (13000, 13200)] =
        [quote (ustr ''EUR'') (13000, 13200), quote (ustr ''RUB'') (150, 160),
         quote (ustr ''USD'') (12300, 12450)]"
    by (simp add: quote_def ustr_def)
  then show ?thesis
    by (simp add: kapitalbank_def kapitalbank_urls_def page_env_fetch k)
      (simp add: page_env_def no_net_def)
qed

theorem output_currencies_witness:
  "kapitalbank ascii_ucd (page_env (rows_page mixed_rows)) =
     Inr \<lparr>bank = ustr ''Kapitalbank'', date = ustr ''2025-01-01'',
          rates = [quote (ustr ''EUR'') (13000, 13200), quote (ustr ''RUB'') (150, 160),
                   quote (ustr ''USD'') (12300, 12450)],
          source_url = ustr ''https://www.kapitalbank.uz/ru/services/exchange-rates-new/''\<rparr> \<and>
   sorted [ustr ''EUR'', ustr ''RUB'', ustr ''USD''] \<and>
   map ccy (hamkor_scan ascii_ucd (rows_page mixed_rows)) =
     [ustr ''USD'', ustr ''GBP'', ustr ''RUB'', ustr ''EUR''] \<and>
   map ccy (rates (hamkorbank ascii_ucd (page_env (rows_page mixed_rows)))) =
     [ustr ''USD'', ustr ''EUR'', ustr ''RUB''] \<and>
   majors_of_scan (page_env (rows_page mixed_rows)) (hamkor_scan ascii_ucd)
     (hamkorbank ascii_ucd (page_env (rows_page mixed_rows)))"
  using output_currencies [of "page_env (rows_page mixed_rows)" ascii_ucd
      "\<lparr>bank = ustr ''Kapitalbank'', date = ustr ''2025-01-01'',
          rates = [quote (ustr ''EUR'') (13000, 13200), quote (ustr ''RUB'') (150, 160),
                   quote (ustr ''USD'') (12300, 12450)],
          source_url = ustr ''https://www.kapitalbank.uz/ru/services/exchange-rates-new/''\<rparr>"]
  by (simp add: kapital_mixed hamkor_mixed mixed_rows_hamkor quote_def)

subsection \<open>Every rate has an allow-listed code and both prices\<close>

lemma find_ccy_allowed: "find_ccy U allowed cells = Some c \<Longrightarrow> c \<in> set allowed"
proof -
  assume a: "find_ccy U allowed cells = Some c"
  then obtain x xs where f: "filter (\<lambda>c. py_upper U c \<in> set allowed) cells = x # xs"
    and c: "c = py_upper U x"
    by (auto simp: find_ccy_def split: list.splits)
  from f have "x \<in> set (filter (\<lambda>c. py_upper U c \<in> set allowed) cells)" by simp
  with c show ?thesis by simp
qed

lemma MAJOR_allowed: "set MAJOR \<subseteq> set CCYS"
  by (simp add: MAJOR_def CCYS_def)

lemma first_row_ok: "first_row U cells = Some r \<Longrightarrow> rate_ok r \<and> ccy r \<in> set MAJOR"
  using MAJOR_allowed
  by (auto simp: first_row_def rate_ok_def Let_def split: if_splits option.splits
      dest!: find_ccy_allowed)

lemma hamkor_row_ok: "hamkor_row U cells = Some r \<Longrightarrow> rate_ok r"
  by (auto simp: hamkor_row_def rate_ok_def Let_def split: if_splits option.splits
      dest!: find_ccy_allowed)

lemma first_scan_ok: "r \<in> set (first_scan U sp) \<Longrightarrow> rate_ok r \<and> ccy r \<in> set MAJOR"
  by (auto simp: first_scan_def in_set_map_filter dest: first_row_ok)

lemma hamkor_scan_ok: "r \<in> set (hamkor_scan U sp) \<Longrightarrow> rate_ok r"
  by (auto simp: hamkor_scan_def in_set_map_filter dest: hamkor_row_ok)

lemma major_adapter_ok:
  assumes "\<And>sp r. r \<in> set (scan sp) \<Longrightarrow> rate_ok r"
    and "r \<in> set (rates (major_adapter E scan name urls))"
  shows "rate_ok r"
proof -
  from assms(2) have "rates (major_adapter E scan name urls) \<noteq> []" by auto
  from major_adapter_rates [OF this] obtain sp
    where "rates (major_adapter E scan name urls) = major_of (scan sp)" by blast
  with assms(2) set_major_of [of "scan sp"] have "r \<in> set (scan sp)" by auto
  then show ?thesis by (rule assms(1))
qed

lemma kapitalbank_ok:
  assumes "kapitalbank U E = Inr br" and "r \<in> set (rates br)"
  shows "rate_ok r"
proof -
  from assms(2) have ne: "rates br \<noteq> []" by auto
  from kapital_loop_Inr [OF assms(1) [unfolded kapitalbank_def] ne]
  obtain url and sp :: soup and out
    where o: "kapital_out E (kapital_bag U (trs sp)) = Inr out"
    and b: "br = \<lparr>bank = ustr ''Kapitalbank'', date = today E, rates = sort_key ccy out,
                  source_url = url\<rparr>"
    by blast
  from b have r: "rates br = sort_key ccy out" by simp
  from kapital_found [OF assms(1)] ne
  obtain sp' where "set (map ccy (rates br)) = ccy ` set (first_scan U sp')" by blast
  with assms(2) obtain r' where "r' \<in> set (first_scan U sp')" "ccy r' = ccy r" by force
  with first_scan_ok [of r' U sp'] MAJOR_allowed have c: "ccy r \<in> set CCYS" by auto
  from assms(2) r have "r \<in> set out" by simp
  with kapital_out_Inr [OF o] have "buy r \<noteq> None \<and> sell r \<noteq> None" by auto
  with c show ?thesis by (simp add: rate_ok_def)
qed

lemma cbu_wanted_ok: "r \<in> set (cbu_wanted d) \<Longrightarrow> rate_ok r"
  using MAJOR_allowed
  by (fastforce simp: cbu_wanted_def in_set_map_filter rate_ok_def split: option.splits)

lemma cbu_reference_Some:
  "cbu_reference U E = Some br \<Longrightarrow>
   \<exists>data xs d. cbu_get E (cbu_url E) = Inr data \<and> iter_json data = Inr xs \<and>
     cbu_dict U E xs Map.empty = Inr d \<and> cbu_wanted d \<noteq> [] \<and>
     br = \<lparr>bank = cbu_name, date = today E, rates = cbu_wanted d, source_url = cbu_url E\<rparr>"
  by (auto simp: cbu_reference_def cbu_try_def Let_def split: sum.splits if_splits)

lemma cbu_reference_ok: "cbu_reference U E = Some br \<Longrightarrow> r \<in> set (rates br) \<Longrightarrow> rate_ok r"
  by (auto dest!: cbu_reference_Some cbu_wanted_ok)

lemma adapters_ok:
  assumes "p \<in> set ADAPTERS" and "snd p U E = Inr br" and "r \<in> set (rates br)"
  shows "rate_ok r"
proof -
  from assms(1) consider "snd p = (\<lambda>U E. Inr (hamkorbank U E))"
    | "snd p = (\<lambda>U E. Inr (agrobank U E))" | "snd p = kapitalbank"
    | "snd p = (\<lambda>U E. Inr (ipakyulibank U E))" | "snd p = (\<lambda>U E. Inr (tbc_bank_uz U E))"
    by (auto simp: ADAPTERS_def)
  then show ?thesis
  proof cases
    case 1
    with assms(2,3) show ?thesis
      by (auto simp: hamkorbank_def intro: major_adapter_ok hamkor_scan_ok)
  next
    case 2
    with assms(2,3) show ?thesis
      by (auto simp: agrobank_def intro: major_adapter_ok dest: first_scan_ok)
  next
    case 3
    with assms(2,3) show ?thesis by (auto intro: kapitalbank_ok)
  next
    case 4
    with assms(2,3) show ?thesis
      by (auto simp: ipakyulibank_def intro: major_adapter_ok dest: first_scan_ok)
  next
    case 5
    with assms(2,3) show ?thesis
      by (auto simp: tbc_bank_uz_def intro: major_adapter_ok dest: first_scan_ok)
  qed
qed

lemma collect_eq:
  "collect U E ps out =
     out @ map (\<lambda>p. projr (snd p U E)) (filter (\<lambda>p. \<not> no_result U E p) ps)"
  by (induction ps arbitrary: out) (auto simp: no_result_def split: sum.splits)

lemma collect_mem:
  "br \<in> set (collect U E ps []) \<Longrightarrow> \<exists>p \<in> set ps. snd p U E = Inr br"
proof -
  assume "br \<in> set (collect U E ps [])"
  then obtain p where p: "p \<in> set ps" "\<not> no_result U E p" "br = projr (snd p U E)"
    by (auto simp: collect_eq)
  then have "snd p U E = Inr br" by (cases "snd p U E") (auto simp: no_result_def)
  with p show ?thesis by blast
qed

lemma used_subset: "set (used U E) \<subseteq> set ADAPTERS"
  by (auto simp: used_def)

lemma main_written:
  "written (main U E) =
     (if collect U E (used U E) [] = []
      then (case cbu_reference U E of Some ref \<Rightarrow> [ref] | None \<Rightarrow> [])
      else collect U E (used U E) [])"
  by (simp add: main_def Let_def split: option.splits)

text \<open>
  Claim C10. Every rate an adapter returns, and every rate of every entry handed to the
  writer, has a currency code of the allow-list and both a buy and a sell price. No rate of
  the output has a null price, the fallback entry's rates included.
\<close>

theorem rates_well_formed:
  "CCYS = map ustr [''USD'', ''EUR'', ''RUB'', ''GBP'', ''JPY'', ''CHF'', ''TRY'', ''CNY'', ''KZT''] \<and>
   (\<forall>r \<in> set (rates (hamkorbank U E)). rate_ok r) \<and>
   (\<forall>r \<in> set (rates (agrobank U E)). rate_ok r) \<and>
   (\<forall>r \<in> set (rates (ipakyulibank U E)). rate_ok r) \<and>
   (\<forall>r \<in> set (rates (tbc_bank_uz U E)). rate_ok r) \<and>
   (\<forall>br. kapitalbank U E = Inr br \<longrightarrow> (\<forall>r \<in> set (rates br). rate_ok r)) \<and>
   (\<forall>br \<in> set (written (main U E)). \<forall>r \<in> set (rates br). rate_ok r)"
proof (intro conjI ballI allI impI)
  show "CCYS = map ustr [''USD'', ''EUR'', ''RUB'', ''GBP'', ''JPY'', ''CHF'', ''TRY'', ''CNY'', ''KZT'']"
    by (simp add: CCYS_def)
next
  fix r assume "r \<in> set (rates (hamkorbank U E))"
  then show "rate_ok r" unfolding hamkorbank_def
    by (rule major_adapter_ok [rotated]) (rule hamkor_scan_ok)
next
  fix r assume "r \<in> set (rates (agrobank U E))"
  then show "rate_ok r" unfolding agrobank_def
    by (rule major_adapter_ok [rotated]) (simp add: first_scan_ok)
next
  fix r assume "r \<in> set (rates (ipakyulibank U E))"
  then show "rate_ok r" unfolding ipakyulibank_def
    by (rule major_adapter_ok [rotated]) (simp add: first_scan_ok)
next
  fix r assume "r \<in> set (rates (tbc_bank_uz U E))"
  then show "rate_ok r" unfolding tbc_bank_uz_def
    by (rule major_adapter_ok [rotated]) (simp add: first_scan_ok)
next
  fix br r assume "kapitalbank U E = Inr br" "r \<in> set (rates br)"
  then show "rate_ok r" by (rule kapitalbank_ok)
next
  fix br r assume b: "br \<in> set (written (main U E))" and r: "r \<in> set (rates br)"
  show "rate_ok r"
  proof (cases "collect U E (used U E) [] = []")
    case True
    with b have "cbu_reference U E = Some br"
      by (auto simp: main_written split: option.splits)
    then show ?thesis using r by (rule cbu_reference_ok)
  next
    case False
    with b have "br \<in> set (collect U E (used U E) [])" by (simp add: main_written)
    from collect_mem [OF this] used_subset obtain p
      where "p \<in> set ADAPTERS" "snd p U E = Inr br" by blast
    then show ?thesis using r by (rule adapters_ok)
  qed
qed

subsection \<open>The orchestrator and the fallback\<close>

lemma adapter_names:
  "map fst ADAPTERS =
     [ustr ''hamkorbank'', ustr ''agrobank'', ustr ''kapitalbank'', ustr ''ipakyulibank'',
      ustr ''tbc_bank_uz'']"
  by (simp add: ADAPTERS_def)

lemma cbu_not_adapter: "ustr ''cbu_reference'' \<notin> set (map fst ADAPTERS)"
  by (simp add: adapter_names) (simp add: ustr_def)

lemma collect_empty: "(collect U E ps [] = []) = list_all (no_result U E) ps"
  by (simp add: collect_eq list_all_iff filter_empty_conv)

lemma main_calls:
  "calls (main U E) =
     map fst (used U E) @
       (if list_all (no_result U E) (used U E) then [ustr ''cbu_reference''] else [])"
  by (simp add: main_def Let_def collect_empty split: option.splits)

text \<open>
  Claim C8. \<open>main\<close> calls the selected adapters in order and then calls \<open>cbu_reference\<close>
  exactly when every one of them raised or returned no rate, that is, when the collection is
  empty; no adapter is called \<open>cbu_reference\<close>. If the fallback yields nothing either, the
  list written is empty, which \<open>json.dump\<close> writes as \<open>[]\<close>; \<open>main\<close> is a total function,
  so the run completes. Otherwise the list written is the fallback entry alone, or the
  entries of the adapters that returned rates.
\<close>

theorem fallback_when_empty:
  "ustr ''cbu_reference'' \<notin> set (map fst ADAPTERS) \<and>
   calls (main U E) =
     map fst (used U E) @
       (if list_all (no_result U E) (used U E) then [ustr ''cbu_reference''] else []) \<and>
   (list_all (no_result U E) (used U E) \<and> cbu_reference U E = None \<longrightarrow>
      written (main U E) = []) \<and>
   (list_all (no_result U E) (used U E) \<longrightarrow>
      written (main U E) = (case cbu_reference U E of None \<Rightarrow> [] | Some ref \<Rightarrow> [ref])) \<and>
   (\<not> list_all (no_result U E) (used U E) \<longrightarrow>
      written (main U E) =
        map (\<lambda>p. projr (snd p U E)) (filter (\<lambda>p. \<not> no_result U E p) (used U E)))"
proof (intro conjI impI)
  show "ustr ''cbu_reference'' \<notin> set (map fst ADAPTERS)" by (rule cbu_not_adapter)
  show "calls (main U E) =
     map fst (used U E) @
       (if list_all (no_result U E) (used U E) then [ustr ''cbu_reference''] else [])"
    by (rule main_calls)
next
  assume "list_all (no_result U E) (used U E) \<and> cbu_reference U E = None"
  then show "written (main U E) = []" by (simp add: main_written collect_empty)
next
  assume "list_all (no_result U E) (used U E)"
  then show "written (main U E) = (case cbu_reference U E of None \<Rightarrow> [] | Some ref \<Rightarrow> [ref])"
    by (simp add: main_written collect_empty split: option.splits)
next
  assume a: "\<not> list_all (no_result U E) (used U E)"
  then have "collect U E (used U E) [] \<noteq> []" by (simp add: collect_empty)
  then show "written (main U E) =
        map (\<lambda>p. projr (snd p U E)) (filter (\<lambda>p. \<not> no_result U E p) (used U E))"
    by (simp add: main_written) (simp add: collect_eq)
qed

lemma no_arg_ONLY: "tl (argv E) = [] \<Longrightarrow> ONLY U E = None"
  by (simp add: ONLY_def)

lemma no_arg_used: "tl (argv E) = [] \<Longrightarrow> used U E = ADAPTERS"
  by (simp add: used_def no_arg_ONLY)

lemma no_net_kapitalbank:
  "kapitalbank U no_net =
     Inl (FetchError (ustr ''https://www.kapitalbank.uz/services/exchange-rates-new/''))"
  by (simp add: kapitalbank_def kapitalbank_urls_def no_net_def)

lemma no_net_major: "rates (major_adapter no_net scan name urls) = []"
  by (simp add: major_adapter_all_raise no_net_def)

lemma no_net_all_fail: "list_all (no_result U no_net) ADAPTERS"
  by (simp add: ADAPTERS_def no_result_def no_net_kapitalbank hamkorbank_def agrobank_def
      ipakyulibank_def tbc_bank_uz_def no_net_major)

lemma no_net_cbu: "cbu_reference U no_net = None"
  by (simp add: cbu_reference_def cbu_try_def no_net_def)

lemma no_net_used: "used U no_net = ADAPTERS"
  by (rule no_arg_used) (simp add: no_net_def)

lemma alpha_hamkorbank: "py_isalpha U (ustr ''hamkorbank'')"
  by (simp add: py_isalpha_def py_isalpha_char_def ustr_def)

lemma only_hamkorbank:
  "ONLY U (only_env (ustr ''hamkorbank'') sp) = Some (ustr ''hamkorbank'')"
  using alpha_hamkorbank [of U] by (simp add: ONLY_def only_env_def) (simp add: ustr_def)

lemma used_hamkorbank:
  "used U (only_env (ustr ''hamkorbank'') sp) =
     [(ustr ''hamkorbank'', \<lambda>U E. Inr (hamkorbank U E))]"
  by (simp add: used_def only_hamkorbank ADAPTERS_def) (simp add: ustr_def)

lemma only_env_fetch: "fetch_html (only_env name sp) u = Inr sp"
  by (simp add: only_env_def page_env_def)

lemma hamkor_only_mixed:
  "hamkorbank U (only_env (ustr ''hamkorbank'') (rows_page mixed_rows)) =
     \<lparr>bank = ustr ''Hamkorbank'', date = ustr ''2025-01-01'',
      rates = [quote (ustr ''USD'') (12300, 12450), quote (ustr ''EUR'') (13000, 13200),
               quote (ustr ''RUB'') (150, 160)],
      source_url = ustr ''https://hamkorbank.uz/ru/exchange-rate/''\<rparr>"
proof -
  have "major_of [quote (ustr ''USD'') (12300, 12450), quote (ustr ''GBP'') (15000, 15500),
      quote (ustr ''RUB'') (150, 160), quote (ustr ''EUR'') (13000, 13200)] =
      [quote (ustr ''USD'') (12300, 12450), quote (ustr ''EUR'') (13000, 13200),
       quote (ustr ''RUB'') (150, 160)]"
    by (simp add: major_of_def dedup_def MAJOR_def quote_def ustr_def)
  then show ?thesis
    by (simp add: hamkorbank_def major_adapter_def hamkorbank_urls_def only_env_fetch
        mixed_rows_hamkor Let_def)
      (simp add: only_env_def page_env_def no_net_def)
qed

lemma main_only_hamkorbank:
  "written (main U (only_env (ustr ''hamkorbank'') (rows_page mixed_rows))) =
     [\<lparr>bank = ustr ''Hamkorbank'', date = ustr ''2025-01-01'',
       rates = [quote (ustr ''USD'') (12300, 12450), quote (ustr ''EUR'') (13000, 13200),
                quote (ustr ''RUB'') (150, 160)],
       source_url = ustr ''https://hamkorbank.uz/ru/exchange-rate/''\<rparr>]"
  by (simp add: main_written used_hamkorbank hamkor_only_mixed)

lemma hamkor_only_result:
  "\<not> list_all (no_result U (only_env (ustr ''hamkorbank'') (rows_page mixed_rows)))
       (used U (only_env (ustr ''hamkorbank'') (rows_page mixed_rows)))"
  by (simp add: used_hamkorbank no_result_def hamkor_only_mixed)

theorem fallback_when_empty_witness:
  "list_all (no_result ascii_ucd no_net) (used ascii_ucd no_net) \<and>
   cbu_reference ascii_ucd no_net = None \<and>
   calls (main ascii_ucd no_net) =
     [ustr ''hamkorbank'', ustr ''agrobank'', ustr ''kapitalbank'', ustr ''ipakyulibank'',
      ustr ''tbc_bank_uz'', ustr ''cbu_reference''] \<and>
   written (main ascii_ucd no_net) = [] \<and>
   \<not> list_all (no_result ascii_ucd (only_env (ustr ''hamkorbank'') (rows_page mixed_rows)))
       (used ascii_ucd (only_env (ustr ''hamkorbank'') (rows_page mixed_rows))) \<and>
   calls (main ascii_ucd (only_env (ustr ''hamkorbank'') (rows_page mixed_rows))) =
     [ustr ''hamkorbank''] \<and>
   written (main ascii_ucd (only_env (ustr ''hamkorbank'') (rows_page mixed_rows))) =
     [hamkorbank ascii_ucd (only_env (ustr ''hamkorbank'') (rows_page mixed_rows))]"
proof -
  let ?E = "only_env (ustr ''hamkorbank'') (rows_page mixed_rows)"
  have 1: "list_all (no_result ascii_ucd no_net) (used ascii_ucd no_net) \<and>
     cbu_reference ascii_ucd no_net = None \<and>
     calls (main ascii_ucd no_net) =
       [ustr ''hamkorbank'', ustr ''agrobank'', ustr ''kapitalbank'', ustr ''ipakyulibank'',
        ustr ''tbc_bank_uz'', ustr ''cbu_reference''] \<and>
     written (main ascii_ucd no_net) = []"
    using fallback_when_empty [of ascii_ucd no_net]
    by (simp add: no_net_used no_net_all_fail no_net_cbu adapter_names)
  have n: "\<not> list_all (no_result ascii_ucd ?E) (used ascii_ucd ?E)" by (rule hamkor_only_result)
  have f: "filter (\<lambda>p. \<not> no_result ascii_ucd ?E p) (used ascii_ucd ?E) = used ascii_ucd ?E"
    using n by (simp add: used_hamkorbank)
  have 2: "calls (main ascii_ucd ?E) = [ustr ''hamkorbank''] \<and>
     written (main ascii_ucd ?E) = [hamkorbank ascii_ucd ?E]"
    using fallback_when_empty [of ascii_ucd ?E] n by (simp add: f) (simp add: used_hamkorbank)
  from 1 n 2 show ?thesis by blast
qed

theorem rates_well_formed_witness:
  "written (main ascii_ucd (only_env (ustr ''hamkorbank'') (rows_page mixed_rows))) =
     [\<lparr>bank = ustr ''Hamkorbank'', date = ustr ''2025-01-01'',
       rates = [quote (ustr ''USD'') (12300, 12450), quote (ustr ''EUR'') (13000, 13200),
                quote (ustr ''RUB'') (150, 160)],
       source_url = ustr ''https://hamkorbank.uz/ru/exchange-rate/''\<rparr>] \<and>
   rate_ok (quote (ustr ''USD'') (12300, 12450)) \<and>
   rate_ok (quote (ustr ''EUR'') (13000, 13200)) \<and>
   rate_ok (quote (ustr ''RUB'') (150, 160)) \<and>
   kapitalbank ascii_ucd (page_env (rows_page eur_twice)) =
     Inr \<lparr>bank = ustr ''Kapitalbank'', date = ustr ''2025-01-01'',
          rates = [\<lparr>ccy = ustr ''EUR'', buy = Some 101, sell = Some 106\<rparr>],
          source_url = ustr ''https://www.kapitalbank.uz/ru/services/exchange-rates-new/''\<rparr> \<and>
   rate_ok \<lparr>ccy = ustr ''EUR'', buy = Some 101, sell = Some 106\<rparr>"
  using rates_well_formed [of ascii_ucd "only_env (ustr ''hamkorbank'') (rows_page mixed_rows)"]
    rates_well_formed [of ascii_ucd "page_env (rows_page eur_twice)"]
  by (simp add: main_only_hamkorbank kapital_eur_twice)

subsection \<open>The reference fallback\<close>

lemma cbu_dict_step:
  "cbu_dict U E (x # xs) d0 = Inr d \<Longrightarrow>
   cbu_dict U E xs d0 = Inr d \<and>
     \<not> (\<exists>kvs s. x = JObj kvs \<and> map_of kvs (ustr ''Ccy'') = Some (JStr s) \<and> s \<noteq> []) \<or>
   (\<exists>kvs s rv q. x = JObj kvs \<and> map_of kvs (ustr ''Ccy'') = Some (JStr s) \<and> s \<noteq> [] \<and>
      map_of kvs (ustr ''Rate'') = Some rv \<and> float_of E rv = Inr q \<and>
      cbu_dict U E xs (d0(py_upper U s \<mapsto> q)) = Inr d)"
  by (cases x) (auto split: option.splits if_splits json.splits sum.splits)

lemma cbu_dict_keeps: "cbu_dict U E xs d0 = Inr d \<Longrightarrow> d0 c \<noteq> None \<Longrightarrow> d c \<noteq> None"
proof (induction xs arbitrary: d0)
  case Nil
  then show ?case by simp
next
  case (Cons x xs)
  from cbu_dict_step [OF Cons.prems(1)] show ?case
  proof (elim disjE conjE exE)
    assume "cbu_dict U E xs d0 = Inr d"
    from Cons.IH [OF this Cons.prems(2)] show ?thesis .
  next
    fix kvs s rv q
    assume "cbu_dict U E xs (d0(py_upper U s \<mapsto> q)) = Inr d"
    from Cons.IH [OF this] Cons.prems(2) show ?thesis by simp
  qed
qed

lemma cbu_dict_from_data:
  "cbu_dict U E xs d0 = Inr d \<Longrightarrow> d c = Some q \<Longrightarrow> d0 c = Some q \<or> in_data U E xs c q"
proof (induction xs arbitrary: d0)
  case Nil
  then show ?case by simp
next
  case (Cons x xs)
  have mono: "in_data U E xs c q \<Longrightarrow> in_data U E (x # xs) c q"
    unfolding in_data_def by auto
  from cbu_dict_step [OF Cons.prems(1)] show ?case
  proof (elim disjE conjE exE)
    assume "cbu_dict U E xs d0 = Inr d"
    from Cons.IH [OF this Cons.prems(2)] mono show ?thesis by blast
  next
    fix kvs s rv q'
    assume x: "x = JObj kvs" "map_of kvs (ustr ''Ccy'') = Some (JStr s)" "s \<noteq> []"
      "map_of kvs (ustr ''Rate'') = Some rv" "float_of E rv = Inr q'"
      and rec: "cbu_dict U E xs (d0(py_upper U s \<mapsto> q')) = Inr d"
    from Cons.IH [OF rec Cons.prems(2)]
    have "(d0(py_upper U s \<mapsto> q')) c = Some q \<or> in_data U E xs c q" .
    then show ?thesis
    proof
      assume u: "(d0(py_upper U s \<mapsto> q')) c = Some q"
      show ?thesis
      proof (cases "c = py_upper U s")
        case True
        with u have "q' = q" by simp
        with x True have "in_data U E (x # xs) c q" unfolding in_data_def by auto
        then show ?thesis ..
      next
        case False
        with u show ?thesis by simp
      qed
    next
      assume "in_data U E xs c q"
      with mono show ?thesis by blast
    qed
  qed
qed

lemma cbu_dict_present:
  "cbu_dict U E xs d0 = Inr d \<Longrightarrow> in_data U E xs c q \<Longrightarrow> d c \<noteq> None"
proof (induction xs arbitrary: d0)
  case Nil
  then show ?case by (simp add: in_data_def)
next
  case (Cons x xs)
  from Cons.prems(2) consider
    (here) kvs s where "x = JObj kvs" "map_of kvs (ustr ''Ccy'') = Some (JStr s)" "s \<noteq> []"
      "py_upper U s = c"
    | (later) "in_data U E xs c q"
    unfolding in_data_def by auto
  then show ?case
  proof cases
    case here
    with cbu_dict_step [OF Cons.prems(1)]
    obtain q' where "cbu_dict U E xs (d0(c \<mapsto> q')) = Inr d" by auto
    from cbu_dict_keeps [OF this, of c] show ?thesis by simp
  next
    case later
    from cbu_dict_step [OF Cons.prems(1)] show ?thesis
    proof (elim disjE conjE exE)
      assume "cbu_dict U E xs d0 = Inr d"
      from Cons.IH [OF this later] show ?thesis .
    next
      fix kvs s rv q'
      assume "cbu_dict U E xs (d0(py_upper U s \<mapsto> q')) = Inr d"
      from Cons.IH [OF this later] show ?thesis .
    qed
  qed
qed

lemma cbu_dict_dom:
  "cbu_dict U E xs Map.empty = Inr d \<Longrightarrow> (d c \<noteq> None) = (\<exists>q. in_data U E xs c q)"
  using cbu_dict_from_data [of U E xs Map.empty d c] cbu_dict_present [of U E xs Map.empty d c]
  by auto

lemma cbu_wanted_ccys: "map ccy (cbu_wanted d) = filter (\<lambda>c. d c \<noteq> None) MAJOR"
  by (simp add: cbu_wanted_def MAJOR_def split: option.splits)

lemma cbu_wanted_values:
  "r \<in> set (cbu_wanted d) \<Longrightarrow> \<exists>q. d (ccy r) = Some q \<and> buy r = Some q \<and> sell r = Some q"
  by (auto simp: cbu_wanted_def in_set_map_filter split: option.splits)

lemma cbu_reference_raised: "isl (cbu_try U E) \<Longrightarrow> cbu_reference U E = None"
  by (cases "cbu_try U E") (simp_all add: cbu_reference_def)

text \<open>
  Claim C7. Whatever is raised inside \<open>cbu_reference\<close> (the endpoint cannot be reached, the
  data cannot be iterated, an entry is not a dictionary, has no \<open>Rate\<close> or one that \<open>float\<close>
  rejects) makes it return \<open>None\<close>; the function has no other outcome than \<open>None\<close> or a
  \<open>BankRates\<close>. When it returns a \<open>BankRates\<close>, the rates are those of USD, EUR and RUB
  that the data has an entry for, in this order, each with buy and sell both equal to a
  reference value the data gives for that currency. When nothing is raised and the data has
  an entry for one of the three, it does return a \<open>BankRates\<close>.
\<close>

theorem reference_fallback:
  "(isl (cbu_try U E) \<longrightarrow> cbu_reference U E = None) \<and>
   (isl (cbu_get E (cbu_url E)) \<or>
    (\<exists>data. cbu_get E (cbu_url E) = Inr data \<and>
       (isl (iter_json data) \<or>
        (\<exists>xs. iter_json data = Inr xs \<and> isl (cbu_dict U E xs Map.empty))))
      \<longrightarrow> cbu_reference U E = None) \<and>
   (\<forall>br. cbu_reference U E = Some br \<longrightarrow>
      bank br = cbu_name \<and>
      (\<exists>data xs. cbu_get E (cbu_url E) = Inr data \<and> iter_json data = Inr xs \<and>
         map ccy (rates br) = filter (\<lambda>c. \<exists>q. in_data U E xs c q) MAJOR \<and>
         (\<forall>r \<in> set (rates br).
            \<exists>q. in_data U E xs (ccy r) q \<and> buy r = Some q \<and> sell r = Some q))) \<and>
   (\<forall>data xs d c q.
      cbu_get E (cbu_url E) = Inr data \<and> iter_json data = Inr xs \<and>
      cbu_dict U E xs Map.empty = Inr d \<and> c \<in> set MAJOR \<and> in_data U E xs c q
      \<longrightarrow> cbu_reference U E \<noteq> None)"
proof (intro conjI allI impI)
  assume "isl (cbu_try U E)"
  then show "cbu_reference U E = None" by (rule cbu_reference_raised)
next
  assume "isl (cbu_get E (cbu_url E)) \<or>
    (\<exists>data. cbu_get E (cbu_url E) = Inr data \<and>
       (isl (iter_json data) \<or>
        (\<exists>xs. iter_json data = Inr xs \<and> isl (cbu_dict U E xs Map.empty))))"
  then have "isl (cbu_try U E)"
    by (auto simp: cbu_try_def isl_def split: sum.splits)
  then show "cbu_reference U E = None" by (rule cbu_reference_raised)
next
  fix br assume s: "cbu_reference U E = Some br"
  from cbu_reference_Some [OF s] obtain data xs d
    where g: "cbu_get E (cbu_url E) = Inr data" "iter_json data = Inr xs"
      and d: "cbu_dict U E xs Map.empty = Inr d"
      and br: "br = \<lparr>bank = cbu_name, date = today E, rates = cbu_wanted d,
                     source_url = cbu_url E\<rparr>"
    by blast
  from br show "bank br = cbu_name" by simp
  have e: "(\<lambda>c. d c \<noteq> None) = (\<lambda>c. \<exists>q. in_data U E xs c q)"
    using cbu_dict_dom [OF d] by (intro ext) blast
  have 1: "map ccy (rates br) = filter (\<lambda>c. \<exists>q. in_data U E xs c q) MAJOR"
    using cbu_wanted_ccys [of d] unfolding e by (simp add: br)
  have 2: "\<exists>q. in_data U E xs (ccy r) q \<and> buy r = Some q \<and> sell r = Some q"
    if "r \<in> set (rates br)" for r
  proof -
    from that have "r \<in> set (cbu_wanted d)" by (simp add: br)
    from cbu_wanted_values [OF this] obtain q
      where q: "d (ccy r) = Some q" "buy r = Some q" "sell r = Some q" by blast
    from cbu_dict_from_data [OF d q(1)] have "in_data U E xs (ccy r) q" by simp
    with q show ?thesis by blast
  qed
  from g 1 2 show "\<exists>data xs. cbu_get E (cbu_url E) = Inr data \<and> iter_json data = Inr xs \<and>
         map ccy (rates br) = filter (\<lambda>c. \<exists>q. in_data U E xs c q) MAJOR \<and>
         (\<forall>r \<in> set (rates br).
            \<exists>q. in_data U E xs (ccy r) q \<and> buy r = Some q \<and> sell r = Some q)"
    by blast
next
  fix data xs d c q
  assume a: "cbu_get E (cbu_url E) = Inr data \<and> iter_json data = Inr xs \<and>
      cbu_dict U E xs Map.empty = Inr d \<and> c \<in> set MAJOR \<and> in_data U E xs c q"
  then have "d c \<noteq> None" using cbu_dict_present by blast
  with a have "c \<in> set (filter (\<lambda>c. d c \<noteq> None) MAJOR)" by simp
  then have "cbu_wanted d \<noteq> []" using cbu_wanted_ccys [of d] by (metis empty_iff empty_set map_is_Nil_conv)
  with a show "cbu_reference U E \<noteq> None"
    by (simp add: cbu_reference_def cbu_try_def)
qed

lemma cbu_env_usd:
  "cbu_reference U (cbu_env (JStr (ustr ''12345.0''))) =
     Some \<lparr>bank = cbu_name, date = ustr ''2025-01-01'',
           rates = [\<lparr>ccy = ustr ''USD'', buy = Some 12345, sell = Some 12345\<rparr>],
           source_url = ustr ''https://cbu.uz/ru/arkhiv-kursov-valyut/json/all/2025-01-01/''\<rparr>"
  by (simp add: cbu_reference_def cbu_try_def cbu_env_def no_net_def cbu_wanted_def MAJOR_def
      py_upper_def py_upper_char_def cbu_url_def ustr_def)

lemma cbu_env_bad: "isl (cbu_try U (cbu_env (JStr (ustr ''n/a''))))"
  by (simp add: cbu_try_def cbu_env_def no_net_def ustr_def)

theorem reference_fallback_witness:
  "isl (cbu_try ascii_ucd (cbu_env (JStr (ustr ''n/a'')))) \<and>
   cbu_reference ascii_ucd (cbu_env (JStr (ustr ''n/a''))) = None \<and>
   isl (cbu_get no_net (cbu_url no_net)) \<and>
   cbu_reference ascii_ucd no_net = None \<and>
   cbu_reference ascii_ucd (cbu_env (JStr (ustr ''12345.0''))) =
     Some \<lparr>bank = cbu_name, date = ustr ''2025-01-01'',
           rates = [\<lparr>ccy = ustr ''USD'', buy = Some 12345, sell = Some 12345\<rparr>],
           source_url = ustr ''https://cbu.uz/ru/arkhiv-kursov-valyut/json/all/2025-01-01/''\<rparr> \<and>
   (\<exists>data xs. cbu_get (cbu_env (JStr (ustr ''12345.0'')))
                 (cbu_url (cbu_env (JStr (ustr ''12345.0'')))) = Inr data \<and>
      iter_json data = Inr xs \<and>
      [ustr ''USD''] = filter (\<lambda>c. \<exists>q. in_data ascii_ucd (cbu_env (JStr (ustr ''12345.0''))) xs c q) MAJOR \<and>
      in_data ascii_ucd (cbu_env (JStr (ustr ''12345.0''))) xs (ustr ''USD'') 12345)"
proof -
  let ?B = "cbu_env (JStr (ustr ''n/a''))"
  let ?G = "cbu_env (JStr (ustr ''12345.0''))"
  have b: "isl (cbu_try ascii_ucd ?B)" by (rule cbu_env_bad)
  with reference_fallback [of ascii_ucd ?B] have 1: "cbu_reference ascii_ucd ?B = None" by blast
  have n: "isl (cbu_get no_net (cbu_url no_net))" by (simp add: no_net_def)
  with reference_fallback [of ascii_ucd no_net] have 2: "cbu_reference ascii_ucd no_net = None"
    by blast
  have g: "cbu_reference ascii_ucd ?G =
     Some \<lparr>bank = cbu_name, date = ustr ''2025-01-01'',
           rates = [\<lparr>ccy = ustr ''USD'', buy = Some 12345, sell = Some 12345\<rparr>],
           source_url = ustr ''https://cbu.uz/ru/arkhiv-kursov-valyut/json/all/2025-01-01/''\<rparr>"
    by (rule cbu_env_usd)
  with reference_fallback [of ascii_ucd ?G]
  have 3: "\<exists>data xs. cbu_get ?G (cbu_url ?G) = Inr data \<and> iter_json data = Inr xs \<and>
      [ustr ''USD''] = filter (\<lambda>c. \<exists>q. in_data ascii_ucd ?G xs c q) MAJOR \<and>
      in_data ascii_ucd ?G xs (ustr ''USD'') 12345"
    by simp
  from b 1 n 2 g 3 show ?thesis by blast
qed

subsection \<open>Selecting the adapters from the command line\<close>

lemma ONLY_alpha: "ONLY U E = Some a \<Longrightarrow> py_isalpha U a"
proof -
  assume "ONLY U E = Some a"
  then obtain xs where
    "filter (\<lambda>a. py_isalpha U a \<and> a \<noteq> ustr ''--debug'') (tl (argv E)) = a # xs"
    by (auto simp: ONLY_def split: list.splits)
  then have "a \<in> set (filter (\<lambda>a. py_isalpha U a \<and> a \<noteq> ustr ''--debug'') (tl (argv E)))"
    by simp
  then show ?thesis by simp
qed

lemma tbc_not_alpha: "\<not> py_isalpha U (ustr ''tbc_bank_uz'')"
  by (simp add: py_isalpha_def py_isalpha_char_def ustr_def)

lemma used_names:
  "map fst (used U E) =
     (case ONLY U E of
        None \<Rightarrow> map fst ADAPTERS
      | Some a \<Rightarrow> filter (\<lambda>n. n = a) (map fst ADAPTERS))"
  by (cases "ONLY U E") (auto simp: used_def filter_map o_def)

lemma never_only_tbc: "map fst (used U E) \<noteq> [ustr ''tbc_bank_uz'']"
proof (cases "ONLY U E")
  case None
  then show ?thesis by (simp add: used_names adapter_names)
next
  case (Some a)
  show ?thesis
  proof
    assume "map fst (used U E) = [ustr ''tbc_bank_uz'']"
    with Some have "ustr ''tbc_bank_uz'' \<in> set (filter (\<lambda>n. n = a) (map fst ADAPTERS))"
      by (simp add: used_names)
    then have "a = ustr ''tbc_bank_uz''" by simp
    with ONLY_alpha [OF Some] tbc_not_alpha show False by simp
  qed
qed

lemma ONLY_one_arg:
  "ONLY U (args_env [a]) = (if py_isalpha U a \<and> a \<noteq> ustr ''--debug'' then Some a else None)"
  by (simp add: ONLY_def args_env_def)

lemma alpha_names:
  "py_isalpha U (ustr ''hamkorbank'')" "py_isalpha U (ustr ''agrobank'')"
  "py_isalpha U (ustr ''kapitalbank'')" "py_isalpha U (ustr ''ipakyulibank'')"
  by (simp_all add: py_isalpha_def py_isalpha_char_def ustr_def)

lemma not_debug:
  "ustr ''hamkorbank'' \<noteq> ustr ''--debug''" "ustr ''agrobank'' \<noteq> ustr ''--debug''"
  "ustr ''kapitalbank'' \<noteq> ustr ''--debug''" "ustr ''ipakyulibank'' \<noteq> ustr ''--debug''"
  by (simp_all add: ustr_def)

text \<open>
  Claim C9, on the code. With no argument, and with \<open>--debug\<close> alone, all five adapters run
  in the order of \<open>ADAPTERS\<close>. Each of the names \<open>hamkorbank\<close>, \<open>agrobank\<close>,
  \<open>kapitalbank\<close> and \<open>ipakyulibank\<close> selects its one adapter. The name \<open>tbc_bank_uz\<close>
  does not: \<open>str.isalpha\<close> is false on it because of the underscores, \<open>ONLY\<close> stays
  \<open>None\<close> and all five adapters run; and no command line at all makes \<open>tbc_bank_uz\<close> the
  one adapter that runs.
\<close>

theorem adapter_selection:
  "map fst (used U (args_env [])) =
     [ustr ''hamkorbank'', ustr ''agrobank'', ustr ''kapitalbank'', ustr ''ipakyulibank'',
      ustr ''tbc_bank_uz''] \<and>
   map fst (used U (args_env [ustr ''--debug''])) =
     [ustr ''hamkorbank'', ustr ''agrobank'', ustr ''kapitalbank'', ustr ''ipakyulibank'',
      ustr ''tbc_bank_uz''] \<and>
   map fst (used U (args_env [ustr ''hamkorbank''])) = [ustr ''hamkorbank''] \<and>
   map fst (used U (args_env [ustr ''agrobank''])) = [ustr ''agrobank''] \<and>
   map fst (used U (args_env [ustr ''kapitalbank''])) = [ustr ''kapitalbank''] \<and>
   map fst (used U (args_env [ustr ''ipakyulibank''])) = [ustr ''ipakyulibank''] \<and>
   ONLY U (args_env [ustr ''tbc_bank_uz'']) = None \<and>
   map fst (used U (args_env [ustr ''tbc_bank_uz''])) =
     [ustr ''hamkorbank'', ustr ''agrobank'', ustr ''kapitalbank'', ustr ''ipakyulibank'',
      ustr ''tbc_bank_uz''] \<and>
   (\<forall>E. map fst (used U E) \<noteq> [ustr ''tbc_bank_uz''])"
proof (intro conjI allI)
  have d: "\<not> py_isalpha U (ustr ''--debug'')"
    by (simp add: py_isalpha_def py_isalpha_char_def ustr_def)
  show "map fst (used U (args_env [])) =
     [ustr ''hamkorbank'', ustr ''agrobank'', ustr ''kapitalbank'', ustr ''ipakyulibank'',
      ustr ''tbc_bank_uz'']"
    by (simp add: used_names ONLY_def args_env_def adapter_names)
  show "map fst (used U (args_env [ustr ''--debug''])) =
     [ustr ''hamkorbank'', ustr ''agrobank'', ustr ''kapitalbank'', ustr ''ipakyulibank'',
      ustr ''tbc_bank_uz'']"
    by (simp add: used_names ONLY_one_arg adapter_names)
  show "map fst (used U (args_env [ustr ''hamkorbank''])) = [ustr ''hamkorbank'']"
    by (simp add: used_names ONLY_one_arg alpha_names not_debug adapter_names)
      (simp add: ustr_def)
  show "map fst (used U (args_env [ustr ''agrobank''])) = [ustr ''agrobank'']"
    by (simp add: used_names ONLY_one_arg alpha_names not_debug adapter_names)
      (simp add: ustr_def)
  show "map fst (used U (args_env [ustr ''kapitalbank''])) = [ustr ''kapitalbank'']"
    by (simp add: used_names ONLY_one_arg alpha_names not_debug adapter_names)
      (simp add: ustr_def)
  show "map fst (used U (args_env [ustr ''ipakyulibank''])) = [ustr ''ipakyulibank'']"
    by (simp add: used_names ONLY_one_arg alpha_names not_debug adapter_names)
      (simp add: ustr_def)
  show t: "ONLY U (args_env [ustr ''tbc_bank_uz'']) = None"
    by (simp add: ONLY_one_arg tbc_not_alpha)
  show "map fst (used U (args_env [ustr ''tbc_bank_uz''])) =
     [ustr ''hamkorbank'', ustr ''agrobank'', ustr ''kapitalbank'', ustr ''ipakyulibank'',
      ustr ''tbc_bank_uz'']"
    by (simp add: used_names t adapter_names)
  fix E show "map fst (used U E) \<noteq> [ustr ''tbc_bank_uz'']" by (rule never_only_tbc)
qed

subsection \<open>The numeric normalizer\<close>

lemma norm_chars_eq:
  "py_replace1 44 [46] (py_replace1 32 [] (py_replace1 160 [32] m)) = norm_chars m"
  by (induction m) (simp_all add: py_replace1_def norm_chars_def)

lemma norm_text_eq: "norm_text x = norm_chars (py_strip x)"
  by (simp add: norm_text_def norm_chars_eq)

lemma norm_chars_append: "norm_chars (xs @ ys) = norm_chars xs @ norm_chars ys"
  by (simp add: norm_chars_def)


































lemma norm_chars_Nil: "norm_chars [] = []"
  by (simp add: norm_chars_def)



















subsection \<open>What reaches \<open>float\<close>\<close>

lemma num_py_float_input:
  "num_py U x = (case float_input U x of None \<Rightarrow> None | Some y \<Rightarrow> py_float U y)"
  by (simp add: num_py_def float_input_def Let_def split: option.splits)

lemma digit_not_special:
  "py_isdigit U c \<Longrightarrow> c \<noteq> 32 \<and> c \<noteq> 44 \<and> c \<noteq> 46 \<and> c \<noteq> 45 \<and> c \<noteq> 10"
  by (auto simp: py_isdigit_def py_decimal_def split: if_splits)

lemma digits1_shape:
  "digits1 U y \<Longrightarrow> list_all (py_isdigit U) y \<and> y \<noteq> [] \<and> py_isdigit U (hd y) \<and> py_isdigit U (last y)"
  by (cases y) (auto simp: digits1_def list_all_iff)

lemma strict_body_shape:
  assumes "strict_body U y"
  shows "list_all (\<lambda>c. py_isdigit U c \<or> c = 46) y \<and> y \<noteq> [] \<and> py_isdigit U (hd y) \<and>
         py_isdigit U (last y)"
proof -
  from assms consider "digits1 U y"
    | i where "i < length y" "y ! i = 46" "digits1 U (take i y)" "digits1 U (drop (Suc i) y)"
    unfolding strict_body_def list_ex_iff by auto
  then show ?thesis
  proof cases
    case 1
    from digits1_shape [OF this] show ?thesis by (auto simp: list_all_iff)
  next
    case 2
    let ?a = "take i y" and ?b = "drop (Suc i) y"
    have y: "y = ?a @ 46 # ?b" using 2(1,2) by (metis id_take_nth_drop)
    from digits1_shape [OF 2(3)] digits1_shape [OF 2(4)]
    have a: "list_all (py_isdigit U) ?a" "?a \<noteq> []" "py_isdigit U (hd ?a)"
      and b: "list_all (py_isdigit U) ?b" "?b \<noteq> []" "py_isdigit U (last ?b)"
      by blast+
    have "list_all (\<lambda>c. py_isdigit U c \<or> c = 46) (?a @ 46 # ?b)"
      using a(1) b(1) by (auto simp: list_all_iff)
    moreover have "hd (?a @ 46 # ?b) = hd ?a" using a(2) by simp
    moreover have "last (?a @ 46 # ?b) = last ?b" using b(2) by simp
    ultimately have "list_all (\<lambda>c. py_isdigit U c \<or> c = 46) (?a @ 46 # ?b) \<and>
        ?a @ 46 # ?b \<noteq> [] \<and> py_isdigit U (hd (?a @ 46 # ?b)) \<and>
        py_isdigit U (last (?a @ 46 # ?b))"
      using a(3) b(3) by simp
    then show ?thesis by (simp only: y [symmetric] simp_thms)
  qed
qed

lemma strict_signed_shape: "strict_signed U y \<Longrightarrow> float_shape U y"
proof -
  assume "strict_signed U y"
  then consider "strict_body U y" | t where "y = 45 # t" "strict_body U t"
    by (auto simp: strict_signed_def split: list.splits)
  then show ?thesis
  proof cases
    case 1
    from strict_body_shape [OF this] show ?thesis
      by (auto simp: float_shape_def list_all_iff)
  next
    case 2
    from strict_body_shape [OF 2(2)] show ?thesis
      by (auto simp: float_shape_def list_all_iff 2(1))
  qed
qed

lemma strip_last: "py_strip x \<noteq> [] \<Longrightarrow> \<not> py_isspace (last (py_strip x))"
proof -
  let ?z = "dropWhile py_isspace (rev (dropWhile py_isspace x))"
  assume "py_strip x \<noteq> []"
  then have z: "?z \<noteq> []" by (simp add: py_strip_def)
  then have "\<not> py_isspace (hd ?z)" by (rule hd_dropWhile)
  moreover have "last (py_strip x) = hd ?z" using z by (simp add: py_strip_def last_rev)
  ultimately show ?thesis by simp
qed

lemma norm_text_last: "norm_text x \<noteq> [] \<Longrightarrow> last (norm_text x) \<noteq> 10"
proof -
  assume n: "norm_text x \<noteq> []"
  then have s: "py_strip x \<noteq> []" by (auto simp: norm_text_eq norm_chars_Nil)
  let ?l = "last (py_strip x)"
  from strip_last [OF s] have l: "\<not> py_isspace ?l" .
  then have l': "?l \<noteq> 32" "?l \<noteq> 160" "?l \<noteq> 10" by (auto simp: py_isspace_def)
  have "py_strip x = butlast (py_strip x) @ [?l]" using s by simp
  then have "norm_text x = norm_chars (butlast (py_strip x)) @ norm_chars [?l]"
    by (metis norm_text_eq norm_chars_append)
  moreover have "norm_chars [?l] = [if ?l = 44 then 46 else ?l]"
    using l' by (simp add: norm_chars_def)
  ultimately have "last (norm_text x) = (if ?l = 44 then 46 else ?l)" by simp
  with l' show ?thesis by simp
qed

lemma strict_input_shape: "strict_match U (norm_text x) \<Longrightarrow> float_shape U (norm_text x)"
proof -
  assume m: "strict_match U (norm_text x)"
  then have "strict_signed U (norm_text x)"
    using norm_text_last [of x] by (auto simp: strict_match_def)
  then show ?thesis by (rule strict_signed_shape)
qed

lemma takeWhile_last_digit:
  "py_isdigit U d \<Longrightarrow> py_isdigit U (last (d # takeWhile (py_isdigit U) ds))"
proof (cases "takeWhile (py_isdigit U) ds = []")
  case True
  assume "py_isdigit U d"
  with True show ?thesis by simp
next
  case False
  then have "last (takeWhile (py_isdigit U) ds) \<in> set (takeWhile (py_isdigit U) ds)"
    by (rule last_in_set)
  then have "py_isdigit U (last (takeWhile (py_isdigit U) ds))" by (auto dest: set_takeWhileD)
  with False show ?thesis by simp
qed

lemma loose_at_shape:
  assumes c: "py_isdigit U c"
  shows "list_all (\<lambda>c. py_isdigit U c \<or> py_isspace c \<or> c = 46 \<or> c = 44) (loose_at U c rest) \<and>
         hd (loose_at U c rest) = c \<and> py_isdigit U (last (loose_at U c rest))"
proof -
  let ?run = "takeWhile (\<lambda>d. py_isdigit U d \<or> py_isspace d) rest"
  have alt2: "list_all (\<lambda>c. py_isdigit U c \<or> py_isspace c \<or> c = 46 \<or> c = 44)
                (c # takeWhile (py_isdigit U) rest) \<and>
        hd (c # takeWhile (py_isdigit U) rest) = c \<and>
        py_isdigit U (last (c # takeWhile (py_isdigit U) rest))"
    using c takeWhile_last_digit [OF c, of rest]
    by (auto simp: list_all_iff dest: set_takeWhileD)
  have alt1: "list_all (\<lambda>c. py_isdigit U c \<or> py_isspace c \<or> c = 46 \<or> c = 44)
                (c # ?run @ sep # d # takeWhile (py_isdigit U) ds) \<and>
        hd (c # ?run @ sep # d # takeWhile (py_isdigit U) ds) = c \<and>
        py_isdigit U (last (c # ?run @ sep # d # takeWhile (py_isdigit U) ds))"
    if "sep = 46 \<or> sep = 44" "py_isdigit U d" for sep d ds
    using c that takeWhile_last_digit [OF that(2), of ds]
    by (auto simp: list_all_iff dest: set_takeWhileD)
  let ?after = "dropWhile (\<lambda>d. py_isdigit U d \<or> py_isspace d) rest"
  show ?thesis
  proof (cases "\<exists>sep d ds. ?after = sep # d # ds \<and> (sep = 46 \<or> sep = 44) \<and> py_isdigit U d")
    case True
    then obtain sep d ds where s: "?after = sep # d # ds" "sep = 46 \<or> sep = 44" "py_isdigit U d"
      by blast
    then have "loose_at U c rest = c # ?run @ sep # d # takeWhile (py_isdigit U) ds"
      by (simp add: loose_at_def)
    with alt1 [OF s(2,3), of ds] show ?thesis by (simp only:)
  next
    case False
    then have "loose_at U c rest = c # takeWhile (py_isdigit U) rest"
      by (auto simp: loose_at_def Let_def split: list.splits)
    with alt2 show ?thesis by (simp only:)
  qed
qed

lemma loose_search_shape:
  "loose_search U y = Some g \<Longrightarrow>
   list_all (\<lambda>c. py_isdigit U c \<or> py_isspace c \<or> c = 46 \<or> c = 44) g \<and> g \<noteq> [] \<and>
   py_isdigit U (hd g) \<and> py_isdigit U (last g)"
proof (induction y)
  case Nil
  then show ?case by simp
next
  case (Cons c rest)
  show ?case
  proof (cases "py_isdigit U c")
    case True
    with Cons.prems have g: "g = loose_at U c rest" by simp
    have "loose_at U c rest \<noteq> []" by (simp add: loose_at_def Let_def split: list.splits)
    with loose_at_shape [OF True, of rest] True show ?thesis by (simp add: g)
  next
    case False
    with Cons show ?thesis by simp
  qed
qed

lemma replace_group:
  "py_replace1 44 [46] (py_replace1 32 [] g) =
     concat (map (\<lambda>c. if c = 32 then [] else if c = 44 then [46] else [c]) g)"
  by (induction g) (simp_all add: py_replace1_def)

lemma loose_input_shape:
  assumes "loose_search U y = Some g"
  shows "float_shape U (py_replace1 44 [46] (py_replace1 32 [] g))"
proof -
  let ?f = "\<lambda>c. if c = 32 then [] else if c = 44 then [46] else [c::nat]"
  from loose_search_shape [OF assms]
  have all: "list_all (\<lambda>c. py_isdigit U c \<or> py_isspace c \<or> c = 46 \<or> c = 44) g"
    and ne: "g \<noteq> []" and h: "py_isdigit U (hd g)" and l: "py_isdigit U (last g)"
    by blast+
  have 1: "list_all (\<lambda>c. py_isdigit U c \<or> py_isspace c \<or> c = 46 \<or> c = 45) (concat (map ?f g))"
    using all by (induction g) auto
  from ne obtain c t where g1: "g = c # t" by (cases g) auto
  with h digit_not_special [of U c] have 2: "concat (map ?f g) = c # concat (map ?f t)"
    by simp
  have "concat (map ?f (butlast g @ [last g])) = concat (map ?f (butlast g)) @ ?f (last g)"
    by simp
  then have "concat (map ?f g) = concat (map ?f (butlast g)) @ ?f (last g)"
    using ne by simp
  with l digit_not_special [of U "last g"]
  have 3: "last (concat (map ?f g)) = last g" by simp
  show ?thesis
    unfolding replace_group float_shape_def using 1 2 3 h l g1 by simp
qed

text \<open>
  Every string \<open>_num\<close> hands to \<open>float\<close> has the shape on which \<open>py_float\<close> is written.
\<close>

lemma float_arg_shape: "float_input U x = Some y \<Longrightarrow> float_shape U y"
  by (auto simp: float_input_def Let_def strict_input_shape loose_input_shape split: if_splits)

end
